theory Spec2Isabelle
  imports Complex_Main "HOL-Library.Log_Nat"
begin

section \<open>Lottie2MP4: the conversion pipeline of \<open>src/services/converter.ts\<close>\<close>

text \<open>
  The embedding follows the TypeScript of \<open>renderAndConvert\<close> and \<open>getDimensions\<close>.
  Whole-valued quantities (pixel sizes, frame counts, frame indices, the target frame
  rate, timestamps, percentages) are \<open>int\<close> or \<open>nat\<close>; a JavaScript number that need not
  be whole is the rational value of its double.

  The frame count and the progress percentage turn a quotient and a product of doubles
  into an integer (\<open>Math.ceil\<close>, \<open>Math.round\<close>), and there the rounding of the double
  operations decides the result: \<open>(31 / 30) * 30\<close> is \<open>31.000000000000004\<close> and its
  ceiling is 32. These two are computed with the double operations \<open>js_div\<close> and
  \<open>js_mul\<close> below, which round the exact result to the nearest double (53 significant
  bits, ties to even). The sample time handed to the animation and the timestamp are kept
  as the exact values of their expressions; their doubles differ from these by a rounding
  error in the last place.

  Outside the model: overflow to \<open>Infinity\<close>, underflow, \<open>NaN\<close> (except for the \<open>NaN\<close> of a
  remainder by zero), and integers of magnitude \<open>2^53\<close> and more, which a double need not
  hold exactly. No quotient of the model is evaluated with a zero divisor: the frame
  rate of the duration is never zero after its default has been applied, and the loop,
  which divides by the target frame rate and by the number of output frames, is entered
  only when both are non-zero.
\<close>

subsection \<open>Double arithmetic\<close>

text \<open>Rounding to the nearest integer, a tie to the even neighbour.\<close>

definition roundHalfEven :: "rat \<Rightarrow> int" where
  "roundHalfEven z =
     (let f = \<lfloor>z\<rfloor>; r = z - of_int f
      in if r < 1 / 2 then f else if 1 / 2 < r then f + 1 else if even f then f else f + 1)"

text \<open>
  The binary exponent of a positive number: the \<open>e\<close> with \<open>2^e \<le> x < 2^(e + 1)\<close>,
  computed from the bit length of the integer part, or, when \<open>x < 1\<close>, from that of the
  reciprocal rounded up, less one.
\<close>

definition binaryExponent :: "rat \<Rightarrow> int" where
  "binaryExponent x =
     (if 1 \<le> x then bitlen \<lfloor>x\<rfloor> - 1 else - bitlen (\<lceil>1 / x\<rceil> - 1))"

text \<open>Rounding to a multiple of \<open>2^(e - 52)\<close>, the spacing of the doubles of exponent \<open>e\<close>.\<close>

definition roundAt :: "int \<Rightarrow> rat \<Rightarrow> rat" where
  "roundAt e x = 2 powi (e - 52) * of_int (roundHalfEven (x / 2 powi (e - 52)))"

text \<open>The double nearest to a number; the rounding is symmetric in the sign.\<close>

definition toDouble :: "rat \<Rightarrow> rat" where
  "toDouble x = (if x = 0 then 0 else sgn x * roundAt (binaryExponent \<bar>x\<bar>) \<bar>x\<bar>)"

text \<open>JavaScript's \<open>a / b\<close> and \<open>a * b\<close> on doubles.\<close>

definition js_div :: "rat \<Rightarrow> rat \<Rightarrow> rat" where
  "js_div a b = toDouble (a / b)"

definition js_mul :: "rat \<Rightarrow> rat \<Rightarrow> rat" where
  "js_mul a b = toDouble (a * b)"

subsection \<open>Types of \<open>types.ts\<close>\<close>

text \<open>
  \<open>enum Resolution\<close> is a string enum. At run time a resolution is a string, and the
  \<open>switch\<close> of \<open>getDimensions\<close> has a fall-through for every string that is none of
  the three members, so the model keeps the strings.
\<close>

type_synonym Resolution = string

definition HD :: Resolution where "HD = ''720p''"
definition FHD :: Resolution where "FHD = ''1080p''"
definition UHD :: Resolution where "UHD = ''4K''"

text \<open>\<open>enum FrameRate\<close> is a numeric enum; at run time a frame rate is a number.\<close>

definition FPS_30 :: int where "FPS_30 = 30"
definition FPS_60 :: int where "FPS_60 = 60"
definition FPS_120 :: int where "FPS_120 = 120"

text \<open>
  \<open>interface LottieFile\<close>. The fields carry the prefix \<open>lf_\<close> because one-letter record
  selectors would capture variable names. \<open>layers\<close> and \<open>assets\<close> (\<open>any[]\<close>) are
  opaque to the converter and are left out. \<open>ip\<close> and \<open>op\<close> are frame indices. \<open>lf_fr\<close>
  is the frame rate as the document writes it; the parsed object holds its double.
\<close>

record LottieFile =
  lf_v :: string
  lf_fr :: rat
  lf_ip :: int
  lf_op :: int
  lf_w :: int
  lf_h :: int
  lf_nm :: string

record ConvertOptions =
  resolution :: Resolution
  fps :: int

subsection \<open>\<open>getDimensions\<close>\<close>

text \<open>
  JavaScript's \<open>a % b\<close> on whole numbers: the remainder of the truncating division, with
  the sign of the dividend, and \<open>NaN\<close> (here \<open>None\<close>) for a zero divisor. A comparison
  \<open>a % b === 0\<close> is \<open>js_rem a b = Some 0\<close>, which is false on \<open>NaN\<close>, and
  \<open>a % b !== 0\<close> is its negation, which is true on \<open>NaN\<close>.
\<close>

definition js_rem :: "int \<Rightarrow> int \<Rightarrow> int option" where
  "js_rem a b = (if b = 0 then None else Some (sgn a * (\<bar>a\<bar> mod \<bar>b\<bar>)))"

text \<open>
  The two trailing statements \<open>if (targetW % 2 !== 0) targetW--\<close> and the same for
  \<open>targetH\<close> are one helper here.
\<close>

definition makeEven :: "int \<Rightarrow> int" where
  "makeEven x = (if js_rem x 2 \<noteq> Some 0 then x - 1 else x)"

text \<open>
  \<open>targetW\<close> and \<open>targetH\<close> start as 1920 and 1080, and the \<open>switch\<close> has no
  \<open>default\<close> branch: a resolution that matches no \<open>case\<close> keeps the initial values.
  The parameters \<open>originalW\<close> and \<open>originalH\<close> are not read.
\<close>

definition getDimensions :: "Resolution \<Rightarrow> int \<Rightarrow> int \<Rightarrow> int \<times> int" where
  "getDimensions res originalW originalH =
     (let (targetW, targetH) =
            (if res = HD then (1280, 720)
             else if res = FHD then (1920, 1080)
             else if res = UHD then (3840, 2160)
             else (1920, 1080))
      in (makeEven targetW, makeEven targetH))"

subsection \<open>The animation instance\<close>

text \<open>
  \<open>AnimationItem\<close> is the object \<open>lottie.loadAnimation\<close> returns; the converter reads
  its \<open>totalFrames\<close> and \<open>frameRate\<close>.
\<close>

record AnimationItem =
  totalFrames :: int
  frameRate :: rat

text \<open>
  Modelled from the spec: \<open>lottie.loadAnimation\<close> belongs to the library lottie-web,
  which is not part of the sources. The spec gives the instance the source frame count
  \<open>sourceTotalFrames = outPoint - inPoint\<close> and the declared frame rate of the document.
  Whether the library call throws instead of returning the instance is decided by the
  platform record below.
\<close>

definition loadAnimation :: "LottieFile \<Rightarrow> AnimationItem" where
  "loadAnimation animationData =
     \<lparr>totalFrames = lf_op animationData - lf_ip animationData,
      frameRate = toDouble (lf_fr animationData)\<rparr>"

subsection \<open>Frame timing\<close>

text \<open>
  Lines 103 to 105. \<open>anim.frameRate || 30\<close> takes 30 when the frame rate is falsy, which
  for a number of the model means zero. The quotient and the product are those of double
  arithmetic.
\<close>

definition totalOutputFrames :: "AnimationItem \<Rightarrow> int \<Rightarrow> int" where
  "totalOutputFrames anim targetFps =
     (let fr = (if frameRate anim = 0 then 30 else frameRate anim);
          durationSeconds = js_div (of_int (totalFrames anim)) fr
      in \<lceil>js_mul durationSeconds (of_int targetFps)\<rceil>)"

text \<open>Line 167: the source sample time of output frame \<open>i\<close>.\<close>

definition lottieFrame :: "nat \<Rightarrow> int \<Rightarrow> AnimationItem \<Rightarrow> rat" where
  "lottieFrame i frames anim = (of_nat i / of_int frames) * of_int (totalFrames anim)"

text \<open>Lines 161 and 204. \<open>Math.round\<close> rounds a half upwards, as \<open>round\<close> does.\<close>

definition frameIntervalMicroseconds :: "int \<Rightarrow> rat" where
  "frameIntervalMicroseconds targetFps = 1000000 / of_int targetFps"

definition timestamp :: "int \<Rightarrow> nat \<Rightarrow> int" where
  "timestamp targetFps i = round (of_nat i * frameIntervalMicroseconds targetFps)"

text \<open>Line 207.\<close>

definition keyFrame :: "int \<Rightarrow> nat \<Rightarrow> bool" where
  "keyFrame targetFps i = (js_rem (int i) (targetFps * 2) = Some 0)"

text \<open>Lines 212 and 213; the quotient and the product of \<open>pct\<close> in double arithmetic.\<close>

definition progressDue :: "nat \<Rightarrow> int \<Rightarrow> bool" where
  "progressDue i frames = (js_rem (int i) 5 = Some 0 \<or> int i = frames - 1)"

definition pct :: "nat \<Rightarrow> int \<Rightarrow> int" where
  "pct i frames = 10 + round (js_mul (js_div (of_nat i) (of_int frames)) 85)"

subsection \<open>Encoder configuration\<close>

record EncoderConfig =
  codec :: string
  width :: int
  height :: int
  bitrate :: int
  framerate :: int

definition highProfileConfig :: "Resolution \<Rightarrow> int \<Rightarrow> int \<Rightarrow> int \<Rightarrow> EncoderConfig" where
  "highProfileConfig res w h targetFps =
     \<lparr>codec = ''avc1.640033'', width = w, height = h,
      bitrate = (if res = UHD then 40000000 else 15000000),
      framerate = targetFps\<rparr>"

definition mainProfileConfig :: "int \<Rightarrow> int \<Rightarrow> int \<Rightarrow> EncoderConfig" where
  "mainProfileConfig w h targetFps =
     \<lparr>codec = ''avc1.4d002a'', width = w, height = h,
      bitrate = 10000000,
      framerate = targetFps\<rparr>"

text \<open>
  What \<open>await VideoEncoder.isConfigSupported(highProfileConfig)\<close> does: it resolves to an
  object with the field \<open>supported\<close>, or it throws.
\<close>

datatype probe_result = Supported bool | ProbeThrows

text \<open>
  Lines 149 to 155: \<open>selectedConfig\<close> starts as the main profile, the \<open>try\<close> replaces it
  when the probe reports support, and the \<open>catch\<close> only logs a warning.
\<close>

definition selectConfig :: "probe_result \<Rightarrow> Resolution \<Rightarrow> int \<Rightarrow> int \<Rightarrow> int \<Rightarrow> EncoderConfig" where
  "selectConfig support res w h targetFps =
     (case support of
        Supported True \<Rightarrow> highProfileConfig res w h targetFps
      | Supported False \<Rightarrow> mainProfileConfig w h targetFps
      | ProbeThrows \<Rightarrow> mainProfileConfig w h targetFps)"

subsection \<open>The platform and the page\<close>

text \<open>
  The errors of the conversion. The source throws \<open>Error\<close> objects told apart by their
  message, or passes on what a browser call throws; the constructors carry the names the
  spec gives them:
  \<^item> \<open>EncodingUnsupported\<close>: "Your browser does not support the WebCodecs API ..." (line 50);
  \<^item> \<open>CanvasContextMissing\<close>: "Could not create canvas context" (line 76);
  \<^item> \<open>AnimationLoadFailed\<close>: what \<open>lottie.loadAnimation\<close> throws (line 81);
  \<^item> \<open>InvalidDuration\<close>: "Invalid animation duration." (line 107);
  \<^item> \<open>RenderSurfaceMissing\<close>: "SVG element not found during render" (line 172);
  \<^item> \<open>ImageLoadFailed\<close>: the rejection of \<open>loadImage\<close> (lines 36 and 191);
  \<^item> \<open>EncoderRuntimeError\<close>: \<open>videoEncoder.encode\<close> or \<open>videoEncoder.flush\<close> fails;
  \<^item> \<open>MuxError\<close>: \<open>muxer.finalize\<close> fails.
\<close>

datatype error =
  EncodingUnsupported | CanvasContextMissing | AnimationLoadFailed | InvalidDuration
  | RenderSurfaceMissing
  | ImageLoadFailed | EncoderRuntimeError | MuxError

text \<open>What happens to one frame of the loop, decided by the browser.\<close>

datatype frame_outcome = FrameOk | SvgMissing | ImageLoadFails | EncodeFails

text \<open>
  Everything the browser decides during one call: whether \<open>VideoEncoder\<close> is defined,
  whether \<open>getContext('2d')\<close> returns a context, whether \<open>lottie.loadAnimation\<close>
  throws (as the library does on animation data it cannot process), the answer of the
  support probe, the fate of each frame, and whether \<open>flush\<close> and \<open>finalize\<close> succeed.
  The two promises awaited before the \<open>try\<close> (lines 94 and 100) cannot reject and are
  taken to settle.
\<close>

record platform =
  hasVideoEncoder :: bool
  ctxAvailable :: bool
  loadAnimationThrows :: bool
  probe :: probe_result
  frameOutcome :: "nat \<Rightarrow> frame_outcome"
  flushOk :: bool
  finalizeOk :: bool

datatype anim_status = NotLoaded | Live | Destroyed

text \<open>
  The four messages of \<open>onProgress\<close>, with the numbers their template strings print.
\<close>

datatype message =
  Initializing Resolution int | ProcessingFrames int | ProcessingFrame nat int | Finalizing

text \<open>
  The effects of one call that the claims speak about: the off-screen container, the
  animation instance, the configuration given to the encoder, and, in order, the seeks
  (\<open>goToAndStop\<close>), the frames drawn to the canvas, the frames submitted to the encoder
  with timestamp and key-frame flag, and the calls of \<open>onProgress\<close>.
\<close>

record page =
  containerCreated :: bool
  containerInDom :: bool
  animStatus :: anim_status
  configured :: "EncoderConfig option"
  seeks :: "rat list"
  rasterized :: "nat list"
  encoded :: "(int \<times> bool) list"
  progressLog :: "(message \<times> int) list"
  flushed :: bool
  finalized :: bool

definition initial :: page where
  "initial =
     \<lparr>containerCreated = False, containerInDom = False, animStatus = NotLoaded,
      configured = None, seeks = [], rasterized = [], encoded = [], progressLog = [],
      flushed = False, finalized = False\<rparr>"

definition onProgress :: "message \<Rightarrow> int \<Rightarrow> page \<Rightarrow> page" where
  "onProgress msg percent s = s\<lparr>progressLog := progressLog s @ [(msg, percent)]\<rparr>"

subsection \<open>The encode loop\<close>

text \<open>
  The body of the \<open>for\<close> loop, lines 166 to 217. The result is the error thrown in this
  iteration, if any, and the page after it.
\<close>

definition loopBody ::
  "platform \<Rightarrow> AnimationItem \<Rightarrow> int \<Rightarrow> int \<Rightarrow> nat \<Rightarrow> page \<Rightarrow> error option \<times> page" where
  "loopBody env anim targetFps frames i s =
     (let s1 = s\<lparr>seeks := seeks s @ [lottieFrame i frames anim]\<rparr> in
      case frameOutcome env i of
        SvgMissing \<Rightarrow> (Some RenderSurfaceMissing, s1)
      | ImageLoadFails \<Rightarrow> (Some ImageLoadFailed, s1)
      | EncodeFails \<Rightarrow> (Some EncoderRuntimeError, s1\<lparr>rasterized := rasterized s1 @ [i]\<rparr>)
      | FrameOk \<Rightarrow>
          (let s2 = s1\<lparr>rasterized := rasterized s1 @ [i]\<rparr>;
               s3 = s2\<lparr>encoded := encoded s2 @ [(timestamp targetFps i, keyFrame targetFps i)]\<rparr>
           in (None,
               if progressDue i frames
               then onProgress (ProcessingFrame (i + 1) frames) (pct i frames) s3
               else s3)))"

text \<open>\<open>for (let i = 0; i < totalOutputFrames; i++)\<close>, from the index \<open>i\<close> on.\<close>

function encodeLoop ::
  "platform \<Rightarrow> AnimationItem \<Rightarrow> int \<Rightarrow> int \<Rightarrow> nat \<Rightarrow> page \<Rightarrow> error option \<times> page" where
  "encodeLoop env anim targetFps frames i s =
     (if int i < frames then
        (case loopBody env anim targetFps frames i s of
           (Some e, s') \<Rightarrow> (Some e, s')
         | (None, s') \<Rightarrow> encodeLoop env anim targetFps frames (i + 1) s')
      else (None, s))"
  by pat_completeness auto
termination
  by (relation "measure (\<lambda>(env, anim, targetFps, frames, i, s). nat (frames - int i))") auto

declare encodeLoop.simps [simp del]

subsection \<open>\<open>renderAndConvert\<close>\<close>

text \<open>What the call resolves to: the object URL of the finished video.\<close>

datatype handle = BlobUrl

text \<open>The \<open>try\<close> block, lines 102 to 228.\<close>

definition tryBlock ::
  "platform \<Rightarrow> AnimationItem \<Rightarrow> ConvertOptions \<Rightarrow> int \<Rightarrow> int \<Rightarrow> page \<Rightarrow> (error + handle) \<times> page" where
  "tryBlock env anim options w h s =
     (let frames = totalOutputFrames anim (fps options) in
      if frames \<le> 0 then (Inl InvalidDuration, s)
      else
        (let s1 = onProgress (Initializing (resolution options) (fps options)) 5 s;
             selectedConfig = selectConfig (probe env) (resolution options) w h (fps options);
             s2 = s1\<lparr>configured := Some selectedConfig\<rparr>;
             s3 = onProgress (ProcessingFrames frames) 10 s2
         in case encodeLoop env anim (fps options) frames 0 s3 of
              (Some e, s4) \<Rightarrow> (Inl e, s4)
            | (None, s4) \<Rightarrow>
                (let s5 = onProgress Finalizing 98 s4 in
                 if \<not> flushOk env then (Inl EncoderRuntimeError, s5)
                 else if \<not> finalizeOk env then (Inl MuxError, s5\<lparr>flushed := True\<rparr>)
                 else (Inr BlobUrl, s5\<lparr>flushed := True, finalized := True\<rparr>))))"

text \<open>The \<open>finally\<close> block, lines 233 to 238; \<open>anim\<close> is an object, hence truthy.\<close>

definition finallyBlock :: "page \<Rightarrow> page" where
  "finallyBlock s = s\<lparr>animStatus := Destroyed, containerInDom := False\<rparr>"

text \<open>
  The whole call. The \<open>catch\<close> block logs and rethrows, so the error of the \<open>try\<close> block is
  the error of the call. The statements from line 56 to line 100 stand before the \<open>try\<close>:
  the exit for a missing canvas context removes the container itself, and an exception
  of \<open>lottie.loadAnimation\<close> leaves the function with neither that removal nor the
  \<open>finally\<close> block.
\<close>

definition renderAndConvert ::
  "platform \<Rightarrow> LottieFile \<Rightarrow> ConvertOptions \<Rightarrow> (error + handle) \<times> page" where
  "renderAndConvert env animationData options =
     (let (w, h) = getDimensions (resolution options) (lf_w animationData) (lf_h animationData) in
      if \<not> hasVideoEncoder env then (Inl EncodingUnsupported, initial)
      else
        (let s1 = initial\<lparr>containerCreated := True, containerInDom := True\<rparr> in
         if \<not> ctxAvailable env then (Inl CanvasContextMissing, s1\<lparr>containerInDom := False\<rparr>)
         else if loadAnimationThrows env then (Inl AnimationLoadFailed, s1)
         else
           (let anim = loadAnimation animationData;
                s2 = s1\<lparr>animStatus := Live\<rparr>;
                (r, s3) = tryBlock env anim options w h s2
            in (r, finallyBlock s3))))"

subsection \<open>The frame count in the words of the spec\<close>

text \<open>
  The formula of the spec, section 4.2, to be compared with \<open>totalOutputFrames\<close>:
  \<open>totalOutputFrames = ceil(((outPoint - inPoint) / frameRate) * targetFps)\<close>.
\<close>

definition spec_totalOutputFrames :: "LottieFile \<Rightarrow> int \<Rightarrow> int" where
  "spec_totalOutputFrames d targetFps =
     \<lceil>(of_int (lf_op d - lf_ip d) / lf_fr d) * of_int targetFps\<rceil>"

subsection \<open>Example inputs\<close>

text \<open>
  A browser on which every step succeeds, a document of three frames at 30 frames per
  second, and the request FHD at 30 frames per second.
\<close>

definition examplePlatform :: platform where
  "examplePlatform =
     \<lparr>hasVideoEncoder = True, ctxAvailable = True, loadAnimationThrows = False,
      probe = Supported True,
      frameOutcome = (\<lambda>i. FrameOk), flushOk = True, finalizeOk = True\<rparr>"

definition exampleDocument :: LottieFile where
  "exampleDocument =
     \<lparr>lf_v = ''5.7.4'', lf_fr = 30, lf_ip = 0, lf_op = 3, lf_w = 512, lf_h = 512, lf_nm = ''dot''\<rparr>"

definition exampleOptions :: ConvertOptions where
  "exampleOptions = \<lparr>resolution = FHD, fps = FPS_30\<rparr>"

section \<open>Properties\<close>

subsection \<open>Properties of the double arithmetic\<close>

lemma roundHalfEven_floor: "\<lfloor>z\<rfloor> \<le> roundHalfEven z" "roundHalfEven z \<le> \<lfloor>z\<rfloor> + 1"
  by (simp_all add: roundHalfEven_def Let_def)

lemma roundHalfEven_of_int: "roundHalfEven (of_int k) = k"
  by (simp add: roundHalfEven_def)

lemma roundHalfEven_mono:
  assumes "x \<le> y"
  shows "roundHalfEven x \<le> roundHalfEven y"
proof (cases "\<lfloor>x\<rfloor> < \<lfloor>y\<rfloor>")
  case True
  have "roundHalfEven x \<le> \<lfloor>x\<rfloor> + 1" by (rule roundHalfEven_floor)
  also have "\<dots> \<le> \<lfloor>y\<rfloor>" using True by simp
  also have "\<dots> \<le> roundHalfEven y" by (rule roundHalfEven_floor)
  finally show ?thesis .
next
  case False
  with floor_mono [OF assms] have eq: "\<lfloor>x\<rfloor> = \<lfloor>y\<rfloor>" by simp
  from assms have "x - of_int \<lfloor>y\<rfloor> \<le> y - of_int \<lfloor>y\<rfloor>" by simp
  then show ?thesis by (auto simp: roundHalfEven_def Let_def eq)
qed

lemma bitlen_pos: "0 < m \<Longrightarrow> 1 \<le> bitlen m"
  using bitlen_eq_zero_iff [of m] bitlen_nonneg [of m] by linarith

lemma two_powi_nat: "0 \<le> k \<Longrightarrow> (2::rat) powi k = of_int (2 ^ nat k)"
  by (simp add: power_int_nonneg_exp)

lemma binaryExponent_bounds:
  assumes "0 < x"
  shows "2 powi (binaryExponent x) \<le> x" and "x < 2 powi (binaryExponent x + 1)"
proof -
  have "2 powi (binaryExponent x) \<le> x \<and> x < 2 powi (binaryExponent x + 1)"
  proof (cases "1 \<le> x")
    case True
    define m where "m = \<lfloor>x\<rfloor>"
    define b where "b = bitlen m"
    have m: "0 < m" using True by (simp add: m_def)
    then have b: "1 \<le> b" unfolding b_def by (rule bitlen_pos)
    from bitlen_bounds [OF m] have bb: "2 ^ nat (b - 1) \<le> m" "m < 2 ^ nat b"
      by (simp_all add: b_def)
    have e: "binaryExponent x = b - 1" using True by (simp add: binaryExponent_def m_def b_def)
    have "(2::rat) powi (b - 1) = of_int (2 ^ nat (b - 1))" using b by (intro two_powi_nat) simp
    also have "\<dots> \<le> of_int m" using bb(1) by (simp only: of_int_le_iff)
    also have "\<dots> \<le> x" by (simp add: m_def)
    finally have lo: "2 powi (b - 1) \<le> x" .
    have "m + 1 \<le> 2 ^ nat b" using bb(2) by simp
    then have "(of_int (m + 1) :: rat) \<le> of_int (2 ^ nat b)" by (simp only: of_int_le_iff)
    moreover have "x < of_int (m + 1)" using floor_correct [of x] by (simp add: m_def)
    moreover have "(2::rat) powi b = of_int (2 ^ nat b)" using b by (intro two_powi_nat) simp
    ultimately have hi: "x < 2 powi b" by simp
    from lo hi e show ?thesis by simp
  next
    case False
    define y where "y = 1 / x"
    define m where "m = \<lceil>y\<rceil> - 1"
    define b where "b = bitlen m"
    have y: "1 < y" using False assms by (simp add: y_def)
    have my: "of_int m < y" "y \<le> of_int m + 1"
      unfolding m_def using ceiling_correct [of y] by simp_all
    have m: "0 < m" using y my(2) by (metis add.commute less_le_trans of_int_0_less_iff
          less_add_same_cancel1 of_int_0 of_int_less_iff zless_add1_eq not_less order.strict_trans1 zero_less_one of_int_1 of_int_add)
    then have b: "1 \<le> b" unfolding b_def by (rule bitlen_pos)
    from bitlen_bounds [OF m] have bb: "2 ^ nat (b - 1) \<le> m" "m < 2 ^ nat b"
      by (simp_all add: b_def)
    have e: "binaryExponent x = - b" using False by (simp add: binaryExponent_def m_def b_def y_def)
    have p1: "(2::rat) powi (b - 1) = of_int (2 ^ nat (b - 1))" using b by (intro two_powi_nat) simp
    have p2: "(2::rat) powi b = of_int (2 ^ nat b)" using b by (intro two_powi_nat) simp
    have "m + 1 \<le> 2 ^ nat b" using bb(2) by simp
    then have "(of_int (m + 1) :: rat) \<le> of_int (2 ^ nat b)" by (simp only: of_int_le_iff)
    with my(2) have "y \<le> of_int (2 ^ nat b)" by (simp only: of_int_add of_int_1)
    with p2 have "y \<le> 2 powi b" by (simp only:)
    then have "1 / x \<le> 2 powi b" by (simp add: y_def)
    then have "1 \<le> 2 powi b * x" using assms by (simp add: field_simps)
    then have lo: "2 powi (- b) \<le> x" by (simp add: power_int_minus field_simps)
    note p1
    also have "(of_int (2 ^ nat (b - 1)) :: rat) \<le> of_int m" using bb(1) by (simp only: of_int_le_iff)
    also note my(1)
    finally have "2 powi (b - 1) < y" .
    then have "2 powi (b - 1) < 1 / x" by (simp add: y_def)
    then have "2 powi (b - 1) * x < 1" using assms by (simp add: field_simps)
    then have "x < 1 / 2 powi (b - 1)"
      by (simp add: pos_less_divide_eq mult.commute)
    also have "1 / (2::rat) powi (b - 1) = 2 powi (- (b - 1))"
      by (simp only: power_int_minus_divide)
    also have "- (b - 1) = - b + 1" by simp
    finally have hi: "x < 2 powi (- b + 1)" .
    from lo hi e show ?thesis by simp
  qed
  then show "2 powi (binaryExponent x) \<le> x" and "x < 2 powi (binaryExponent x + 1)" by simp_all
qed

lemma binaryExponent_mono:
  assumes "0 < x" "x \<le> y"
  shows "binaryExponent x \<le> binaryExponent y"
proof -
  have "(2::rat) powi (binaryExponent x) \<le> x" using assms(1) by (rule binaryExponent_bounds)
  also note assms(2)
  also have "y < 2 powi (binaryExponent y + 1)" using assms by (intro binaryExponent_bounds) simp
  finally have lt: "(2::rat) powi (binaryExponent x) < 2 powi (binaryExponent y + 1)" .
  have "binaryExponent x < binaryExponent y + 1"
  proof (rule ccontr)
    assume "\<not> binaryExponent x < binaryExponent y + 1"
    then have "binaryExponent y + 1 \<le> binaryExponent x" by simp
    then have "(2::rat) powi (binaryExponent y + 1) \<le> 2 powi (binaryExponent x)"
      by (intro power_int_increasing) simp_all
    with lt show False by simp
  qed
  then show ?thesis by simp
qed

lemma roundAt_mono: "x \<le> y \<Longrightarrow> roundAt e x \<le> roundAt e y"
proof -
  assume xy: "x \<le> y"
  have s: "(0::rat) < 2 powi (e - 52)" by simp
  then have "x / 2 powi (e - 52) \<le> y / 2 powi (e - 52)" using xy by (simp add: divide_right_mono)
  then have "roundHalfEven (x / 2 powi (e - 52)) \<le> roundHalfEven (y / 2 powi (e - 52))"
    by (rule roundHalfEven_mono)
  then show ?thesis unfolding roundAt_def using s by simp
qed

lemma roundAt_grid:
  assumes "e - 52 \<le> k"
  shows "roundAt e (2 powi k) = 2 powi k"
proof -
  have "(2::rat) powi k / 2 powi (e - 52) = 2 powi (k - (e - 52))"
    by (simp add: power_int_diff)
  also have "\<dots> = of_int (2 ^ nat (k - (e - 52)))" using assms by (intro two_powi_nat) simp
  finally have q: "(2::rat) powi k / 2 powi (e - 52) = of_int (2 ^ nat (k - (e - 52)))" .
  have "roundAt e (2 powi k) = 2 powi (e - 52) * ((2::rat) powi k / 2 powi (e - 52))"
    unfolding roundAt_def q roundHalfEven_of_int ..
  then show ?thesis by simp
qed

lemma toDouble_pos:
  assumes "0 < x"
  shows "toDouble x = roundAt (binaryExponent x) x"
  using assms by (simp add: toDouble_def)

lemma toDouble_pos_bounds:
  assumes "0 < x"
  shows "2 powi (binaryExponent x) \<le> toDouble x" "toDouble x \<le> 2 powi (binaryExponent x + 1)"
proof -
  let ?e = "binaryExponent x"
  have "roundAt ?e (2 powi ?e) \<le> roundAt ?e x"
    using binaryExponent_bounds(1) [OF assms] by (rule roundAt_mono)
  then show "2 powi ?e \<le> toDouble x"
    by (simp add: roundAt_grid toDouble_pos [OF assms])
  have "roundAt ?e x \<le> roundAt ?e (2 powi (?e + 1))"
    using binaryExponent_bounds(2) [OF assms] by (intro roundAt_mono) simp
  then show "toDouble x \<le> 2 powi (?e + 1)"
    by (simp add: roundAt_grid toDouble_pos [OF assms])
qed

lemma toDouble_pos_positive: "0 < x \<Longrightarrow> 0 < toDouble x"
proof -
  assume x: "0 < x"
  have "(0::rat) < 2 powi (binaryExponent x)" by simp
  also have "\<dots> \<le> toDouble x" using x by (rule toDouble_pos_bounds)
  finally show ?thesis .
qed

lemma toDouble_minus: "toDouble (- x) = - toDouble x"
  by (simp add: toDouble_def)

lemma toDouble_zero: "toDouble 0 = 0"
  by (simp add: toDouble_def)

lemma toDouble_pos_mono:
  assumes "0 < x" "x \<le> y"
  shows "toDouble x \<le> toDouble y"
proof -
  have y: "0 < y" using assms by simp
  have le: "binaryExponent x \<le> binaryExponent y" using assms by (rule binaryExponent_mono)
  show ?thesis
  proof (cases "binaryExponent x = binaryExponent y")
    case True
    then show ?thesis using assms y by (simp add: toDouble_pos roundAt_mono)
  next
    case False
    with le have "binaryExponent x + 1 \<le> binaryExponent y" by simp
    then have "(2::rat) powi (binaryExponent x + 1) \<le> 2 powi (binaryExponent y)"
      by (intro power_int_increasing) simp_all
    with toDouble_pos_bounds(2) [OF assms(1)] toDouble_pos_bounds(1) [OF y]
    show ?thesis by linarith
  qed
qed

lemma toDouble_mono:
  assumes "x \<le> y"
  shows "toDouble x \<le> toDouble y"
proof -
  consider "0 < x" | "x \<le> 0" "0 \<le> y" | "y < 0" using assms by linarith
  then show ?thesis
  proof cases
    case 1
    then show ?thesis using assms by (rule toDouble_pos_mono)
  next
    case 2
    have "toDouble x \<le> 0"
    proof (cases "x = 0")
      case True then show ?thesis by (simp add: toDouble_zero)
    next
      case False
      with 2 have "0 < - x" by simp
      then have "0 < toDouble (- x)" by (rule toDouble_pos_positive)
      then show ?thesis by (simp add: toDouble_minus)
    qed
    moreover have "0 \<le> toDouble y"
    proof (cases "y = 0")
      case True then show ?thesis by (simp add: toDouble_zero)
    next
      case False
      with 2 have "0 < y" by simp
      then have "0 < toDouble y" by (rule toDouble_pos_positive)
      then show ?thesis by simp
    qed
    ultimately show ?thesis by simp
  next
    case 3
    then have "0 < - y" "- y \<le> - x" using assms by simp_all
    then have "toDouble (- y) \<le> toDouble (- x)" by (rule toDouble_pos_mono)
    then show ?thesis by (simp add: toDouble_minus)
  qed
qed

lemma toDouble_sgn: "sgn (toDouble x) = sgn x"
proof -
  consider "0 < x" | "x = 0" | "x < 0" by linarith
  then show ?thesis
  proof cases
    case 1
    then show ?thesis using toDouble_pos_positive [of x] by simp
  next
    case 2
    then show ?thesis by (simp add: toDouble_zero)
  next
    case 3
    then have "0 < toDouble (- x)" by (intro toDouble_pos_positive) simp
    then show ?thesis using 3 by (simp add: toDouble_minus)
  qed
qed

lemma toDouble_eq_0_iff: "toDouble x = 0 \<longleftrightarrow> x = 0"
  using toDouble_sgn [of x] by (metis sgn_0_0)

lemma toDouble_nonpos_iff: "toDouble x \<le> 0 \<longleftrightarrow> x \<le> 0"
  using toDouble_sgn [of x] by (metis sgn_1_pos not_le sgn_0_0 less_le toDouble_eq_0_iff)

lemma toDouble_fixed: "toDouble 1 = 1" "toDouble 85 = 85"
  by code_simp+

subsection \<open>Properties of the dimension resolver\<close>

lemma Resolution_distinct: "HD \<noteq> FHD" "HD \<noteq> UHD" "FHD \<noteq> UHD"
  by (simp_all add: HD_def FHD_def UHD_def)

lemma js_rem_zero_iff: "b \<noteq> 0 \<Longrightarrow> js_rem a b = Some 0 \<longleftrightarrow> b dvd a"
  by (auto simp: js_rem_def sgn_if mod_eq_0_iff_dvd)

lemma makeEven_odd: "odd x \<Longrightarrow> makeEven x = x - 1"
  by (simp add: makeEven_def js_rem_zero_iff)

lemma makeEven_fix: "even x \<Longrightarrow> makeEven x = x"
  by (simp add: makeEven_def js_rem_zero_iff)

lemma getDimensions_cases:
  "getDimensions res ow oh \<in> {(1280, 720), (1920, 1080), (3840, 2160)}"
  by (simp add: getDimensions_def makeEven_def js_rem_def)

text \<open>
  Claim C5. The dimension resolver maps HD to 1280 x 720, FHD to 1920 x 1080 and UHD to
  3840 x 2160 whatever the intrinsic size of the document; its last step takes one off an
  odd dimension and leaves an even one alone; and for every resolution value its result
  has an even, positive width and height. The function is total and has no error value.
\<close>

theorem getDimensions_table_even_positive:
  "getDimensions HD ow oh = (1280, 720) \<and>
   getDimensions FHD ow oh = (1920, 1080) \<and>
   getDimensions UHD ow oh = (3840, 2160) \<and>
   makeEven (2 * k + 1) = 2 * k \<and> makeEven (2 * k) = 2 * k \<and>
   even (fst (getDimensions res ow oh)) \<and> even (snd (getDimensions res ow oh)) \<and>
   0 < fst (getDimensions res ow oh) \<and> 0 < snd (getDimensions res ow oh)"
proof -
  have tab: "getDimensions HD ow oh = (1280, 720)" "getDimensions FHD ow oh = (1920, 1080)"
    "getDimensions UHD ow oh = (3840, 2160)"
    by (simp_all add: getDimensions_def makeEven_def js_rem_def Resolution_distinct Resolution_distinct [symmetric])
  have dec: "makeEven (2 * k + 1) = 2 * k" "makeEven (2 * k) = 2 * k"
    by (simp_all add: makeEven_odd makeEven_fix)
  have "getDimensions res ow oh \<in> {(1280, 720), (1920, 1080), (3840, 2160)}"
    by (rule getDimensions_cases)
  then have "even (fst (getDimensions res ow oh)) \<and> even (snd (getDimensions res ow oh)) \<and>
    0 < fst (getDimensions res ow oh) \<and> 0 < snd (getDimensions res ow oh)"
    by auto
  with tab dec show ?thesis by simp
qed

text \<open>
  Claim C10. The resolved dimensions do not depend on the intrinsic width and height of
  the document: two calls with the same resolution agree. A resolution value that is none
  of HD, FHD and UHD gets the default 1920 x 1080.
\<close>

theorem getDimensions_ignores_intrinsic_size:
  "getDimensions r w1 h1 = getDimensions r w2 h2 \<and>
   (r \<notin> {HD, FHD, UHD} \<longrightarrow> getDimensions r w1 h1 = (1920, 1080))"
  by (simp add: getDimensions_def makeEven_def js_rem_def)

theorem getDimensions_ignores_intrinsic_size_witness:
  "getDimensions ''8K'' 512 512 = getDimensions ''8K'' 333 777 \<and>
   ''8K'' \<notin> {HD, FHD, UHD} \<and> getDimensions ''8K'' 512 512 = (1920, 1080)"
proof -
  have outside: "''8K'' \<notin> {HD, FHD, UHD}"
    by (simp add: HD_def FHD_def UHD_def)
  from getDimensions_ignores_intrinsic_size [of "''8K''" 512 512 333 777] outside
  show ?thesis by blast
qed

subsection \<open>Arithmetic of the timing functions\<close>

lemma round_step: "x + 1 \<le> y \<Longrightarrow> round (x::rat) < round y"
proof -
  assume h: "x + 1 \<le> y"
  have "of_int \<lfloor>x + 1 / 2\<rfloor> + 1 \<le> y + 1 / 2"
    using of_int_floor_le [of "x + 1 / 2"] h by linarith
  then have "of_int (\<lfloor>x + 1 / 2\<rfloor> + 1) \<le> y + 1 / 2"
    by simp
  then have "\<lfloor>x + 1 / 2\<rfloor> + 1 \<le> \<lfloor>y + 1 / 2\<rfloor>"
    by (simp only: le_floor_iff)
  then show ?thesis by (simp add: round_def)
qed

lemma timestamp_strict:
  assumes fps: "0 < targetFps" "targetFps \<le> 1000000" and ij: "i < j"
  shows "timestamp targetFps i < timestamp targetFps j"
proof -
  let ?c = "frameIntervalMicroseconds targetFps"
  have c: "1 \<le> ?c" using fps by (simp add: frameIntervalMicroseconds_def)
  have "of_nat i * ?c + 1 \<le> of_nat i * ?c + ?c" using c by simp
  also have "\<dots> = of_nat (Suc i) * ?c" by (simp add: algebra_simps)
  also have "\<dots> \<le> of_nat j * ?c"
  proof (rule mult_right_mono)
    show "(of_nat (Suc i) :: rat) \<le> of_nat j" using ij by simp
    show "0 \<le> ?c" using c by simp
  qed
  finally have "of_nat i * ?c + 1 \<le> of_nat j * ?c" .
  then show ?thesis unfolding timestamp_def by (rule round_step)
qed

lemma pct_mono:
  assumes "0 < frames" "i \<le> j"
  shows "pct i frames \<le> pct j frames"
proof -
  have "(of_nat i :: rat) / of_int frames \<le> of_nat j / of_int frames"
    using assms by (simp add: divide_right_mono)
  then have "js_div (of_nat i) (of_int frames) \<le> js_div (of_nat j) (of_int frames)"
    unfolding js_div_def by (rule toDouble_mono)
  then have "js_div (of_nat i) (of_int frames) * 85 \<le> js_div (of_nat j) (of_int frames) * 85"
    by (rule mult_right_mono) simp
  then have "js_mul (js_div (of_nat i) (of_int frames)) 85
      \<le> js_mul (js_div (of_nat j) (of_int frames)) 85"
    unfolding js_mul_def by (rule toDouble_mono)
  then have "round (js_mul (js_div (of_nat i) (of_int frames)) 85)
      \<le> round (js_mul (js_div (of_nat j) (of_int frames)) 85)"
    by (rule round_mono)
  then show ?thesis unfolding pct_def by (rule add_left_mono)
qed

lemma pct_bounds:
  assumes "int i < frames"
  shows "10 \<le> pct i frames \<and> pct i frames \<le> 95"
proof -
  let ?q = "js_div (of_nat i) (of_int frames)"
  have pos: "(0::rat) < of_int frames" using assms by simp
  have "(0::rat) \<le> of_nat i / of_int frames" using pos by simp
  then have "toDouble 0 \<le> ?q" unfolding js_div_def by (rule toDouble_mono)
  then have q0: "0 \<le> ?q" by (simp add: toDouble_zero)
  have "(of_nat i :: rat) \<le> of_int frames"
    using assms by (metis less_imp_le of_int_le_iff of_int_of_nat_eq)
  then have "(of_nat i :: rat) / of_int frames \<le> 1" using pos by (simp add: divide_le_eq)
  then have "?q \<le> toDouble 1" unfolding js_div_def by (rule toDouble_mono)
  then have q1: "?q \<le> 1" by (simp add: toDouble_fixed)
  have "0 * 85 \<le> ?q * 85" using q0 by (rule mult_right_mono) simp
  then have "toDouble 0 \<le> js_mul ?q 85" unfolding js_mul_def by (intro toDouble_mono) simp
  then have p0: "0 \<le> js_mul ?q 85" by (simp add: toDouble_zero)
  have "?q * 85 \<le> 1 * 85" using q1 by (rule mult_right_mono) simp
  then have "js_mul ?q 85 \<le> toDouble 85" unfolding js_mul_def by (intro toDouble_mono) simp
  then have p1: "js_mul ?q 85 \<le> 85" by (simp add: toDouble_fixed)
  have "round (0::rat) \<le> round (js_mul ?q 85)" using p0 by (rule round_mono)
  moreover have "round (js_mul ?q 85) \<le> round (85::rat)" using p1 by (rule round_mono)
  ultimately show ?thesis unfolding pct_def by simp
qed

text \<open>
  The double arithmetic at work: the exact value of \<open>(35 / 50) * 85\<close> is \<open>59.5\<close>, which
  rounds to 60; the double product is \<open>59.49999999999999\<close> and \<open>Math.round\<close> gives 59.
\<close>

lemma pct_double_rounding: "pct 35 50 = 69"
  by code_simp

lemma keyFrame_iff:
  "targetFps \<noteq> 0 \<Longrightarrow> keyFrame targetFps i \<longleftrightarrow> int i mod (targetFps * 2) = 0"
  by (simp add: keyFrame_def js_rem_zero_iff mod_eq_0_iff_dvd)

lemma progressDue_iff: "progressDue i frames \<longleftrightarrow> i mod 5 = 0 \<or> int i = frames - 1"
  by (simp add: progressDue_def js_rem_zero_iff mod_eq_0_iff_dvd) presburger

lemma totalOutputFrames_fps0: "totalOutputFrames anim 0 = 0"
  by (simp add: totalOutputFrames_def js_mul_def toDouble_zero Let_def)

subsection \<open>The encode loop\<close>

lemma loopBody_static:
  "loopBody env anim f n i s = (e, s') \<Longrightarrow>
   containerCreated s' = containerCreated s \<and> containerInDom s' = containerInDom s \<and>
   animStatus s' = animStatus s \<and> configured s' = configured s \<and>
   flushed s' = flushed s \<and> finalized s' = finalized s"
  by (auto simp: loopBody_def onProgress_def Let_def split: frame_outcome.splits if_splits)

lemma loopBody_Some:
  "loopBody env anim f n i s = (Some e, s') \<Longrightarrow>
   e \<noteq> InvalidDuration \<and> encoded s' = encoded s \<and> progressLog s' = progressLog s \<and>
   seeks s' = seeks s @ [lottieFrame i n anim] \<and>
   (rasterized s' = rasterized s \<or> rasterized s' = rasterized s @ [i])"
  by (auto simp: loopBody_def onProgress_def Let_def split: frame_outcome.splits if_splits)

lemma loopBody_None:
  "loopBody env anim f n i s = (None, s') \<Longrightarrow>
   encoded s' = encoded s @ [(timestamp f i, keyFrame f i)] \<and>
   progressLog s' = progressLog s @
     (if progressDue i n then [(ProcessingFrame (i + 1) n, pct i n)] else []) \<and>
   seeks s' = seeks s @ [lottieFrame i n anim] \<and>
   rasterized s' = rasterized s @ [i]"
  by (auto simp: loopBody_def onProgress_def Let_def split: frame_outcome.splits if_splits)

lemma encodeLoop_static:
  "encodeLoop env anim f n i s = (r, s') \<Longrightarrow>
   r \<noteq> Some InvalidDuration \<and>
   containerCreated s' = containerCreated s \<and> containerInDom s' = containerInDom s \<and>
   animStatus s' = animStatus s \<and> configured s' = configured s \<and>
   flushed s' = flushed s \<and> finalized s' = finalized s"
proof (induction env anim f n i s arbitrary: r s' rule: encodeLoop.induct)
  case (1 env anim f n i s)
  show ?case
  proof (cases "int i < n")
    case False
    with "1.prems" show ?thesis by (simp add: encodeLoop.simps)
  next
    case True
    obtain e s1 where body: "loopBody env anim f n i s = (e, s1)"
      by (cases "loopBody env anim f n i s")
    show ?thesis
    proof (cases e)
      case None
      with True body "1.prems" have rec: "encodeLoop env anim f n (i + 1) s1 = (r, s')"
        by (simp add: encodeLoop.simps [of _ _ _ _ i])
      from "1.IH" [OF True body [symmetric] None rec] loopBody_static [OF body]
      show ?thesis by simp
    next
      case (Some err)
      with True body "1.prems" have "r = Some err" "s' = s1"
        by (simp_all add: encodeLoop.simps [of _ _ _ _ i])
      with loopBody_static [OF body] loopBody_Some [of env anim f n i s err s1] body Some
      show ?thesis by simp
    qed
  qed
qed

lemma encodeLoop_logs:
  "encodeLoop env anim f n i s = (r, s') \<Longrightarrow>
   \<exists>k. i \<le> k \<and> (int k \<le> n \<or> k = i) \<and> (r = None \<longrightarrow> n \<le> int k) \<and>
     encoded s' = encoded s @ map (\<lambda>j. (timestamp f j, keyFrame f j)) [i..<k] \<and>
     progressLog s' = progressLog s @
       map (\<lambda>j. (ProcessingFrame (j + 1) n, pct j n)) (filter (\<lambda>j. progressDue j n) [i..<k])"
proof (induction env anim f n i s arbitrary: r s' rule: encodeLoop.induct)
  case (1 env anim f n i s)
  show ?case
  proof (cases "int i < n")
    case False
    with "1.prems" have "r = None" "s' = s" by (simp_all add: encodeLoop.simps)
    with False show ?thesis by (intro exI [of _ i]) simp
  next
    case True
    obtain e s1 where body: "loopBody env anim f n i s = (e, s1)"
      by (cases "loopBody env anim f n i s")
    show ?thesis
    proof (cases e)
      case None
      with True body "1.prems" have rec: "encodeLoop env anim f n (i + 1) s1 = (r, s')"
        by (simp add: encodeLoop.simps [of _ _ _ _ i])
      from "1.IH" [OF True body [symmetric] None rec]
      obtain k where k: "i + 1 \<le> k" "int k \<le> n \<or> k = i + 1" "r = None \<longrightarrow> n \<le> int k"
        "encoded s' = encoded s1 @ map (\<lambda>j. (timestamp f j, keyFrame f j)) [i + 1..<k]"
        "progressLog s' = progressLog s1 @
           map (\<lambda>j. (ProcessingFrame (j + 1) n, pct j n)) (filter (\<lambda>j. progressDue j n) [i + 1..<k])"
        by blast
      from body None have b: "encoded s1 = encoded s @ [(timestamp f i, keyFrame f i)]"
        "progressLog s1 = progressLog s @
           (if progressDue i n then [(ProcessingFrame (i + 1) n, pct i n)] else [])"
        using loopBody_None [of env anim f n i s s1] by simp_all
      from k(1) have upt: "[i..<k] = i # [i + 1..<k]"
        by (simp add: upt_conv_Cons)
      have "i \<le> k" using k(1) by simp
      moreover have "int k \<le> n \<or> k = i" using k(2) True by auto
      moreover note k(3)
      moreover have "encoded s' = encoded s @ map (\<lambda>j. (timestamp f j, keyFrame f j)) [i..<k]"
        using k(4) b(1) upt by simp
      moreover have "progressLog s' = progressLog s @
           map (\<lambda>j. (ProcessingFrame (j + 1) n, pct j n)) (filter (\<lambda>j. progressDue j n) [i..<k])"
        using k(5) b(2) upt by simp
      ultimately show ?thesis by blast
    next
      case (Some err)
      with True body "1.prems" have "r = Some err" "s' = s1"
        by (simp_all add: encodeLoop.simps [of _ _ _ _ i])
      with loopBody_Some [of env anim f n i s err s1] body Some
      show ?thesis by (intro exI [of _ i]) simp
    qed
  qed
qed

lemma encodeLoop_seeks:
  "encodeLoop env anim f n i s = (r, s') \<Longrightarrow>
   \<exists>k m. i \<le> k \<and> k \<le> m \<and> m \<le> k + 1 \<and> (int m \<le> n \<or> m = i) \<and>
     (r = None \<longrightarrow> k = m \<and> n \<le> int m) \<and>
     seeks s' = seeks s @ map (\<lambda>j. lottieFrame j n anim) [i..<m] \<and>
     rasterized s' = rasterized s @ [i..<k]"
proof (induction env anim f n i s arbitrary: r s' rule: encodeLoop.induct)
  case (1 env anim f n i s)
  show ?case
  proof (cases "int i < n")
    case False
    with "1.prems" have "r = None" "s' = s" by (simp_all add: encodeLoop.simps)
    with False show ?thesis by (intro exI [of _ i]) simp
  next
    case True
    obtain e s1 where body: "loopBody env anim f n i s = (e, s1)"
      by (cases "loopBody env anim f n i s")
    show ?thesis
    proof (cases e)
      case None
      with True body "1.prems" have rec: "encodeLoop env anim f n (i + 1) s1 = (r, s')"
        by (simp add: encodeLoop.simps [of _ _ _ _ i])
      from "1.IH" [OF True body [symmetric] None rec]
      obtain k m where k: "i + 1 \<le> k" "k \<le> m" "m \<le> k + 1" "int m \<le> n \<or> m = i + 1"
        "seeks s' = seeks s1 @ map (\<lambda>j. lottieFrame j n anim) [i + 1..<m]"
        "rasterized s' = rasterized s1 @ [i + 1..<k]"
        and kn: "r = None \<longrightarrow> k = m \<and> n \<le> int m"
        by blast
      from body None have b: "seeks s1 = seeks s @ [lottieFrame i n anim]"
        "rasterized s1 = rasterized s @ [i]"
        using loopBody_None [of env anim f n i s s1] by simp_all
      from k(1,2) have upt: "[i..<k] = i # [i + 1..<k]" "[i..<m] = i # [i + 1..<m]"
        by (simp_all add: upt_conv_Cons)
      have "i \<le> k" using k(1) by simp
      moreover note k(2,3)
      moreover have "int m \<le> n \<or> m = i" using k(4) True by auto
      moreover note kn
      moreover have "seeks s' = seeks s @ map (\<lambda>j. lottieFrame j n anim) [i..<m]"
        using k(5) b(1) upt by simp
      moreover have "rasterized s' = rasterized s @ [i..<k]"
        using k(6) b(2) upt by simp
      ultimately show ?thesis by blast
    next
      case (Some err)
      with True body "1.prems" have rs: "r = Some err" "s' = s1"
        by (simp_all add: encodeLoop.simps [of _ _ _ _ i])
      from loopBody_Some [of env anim f n i s err s1] body Some
      have sk: "seeks s1 = seeks s @ [lottieFrame i n anim]"
        and ra: "rasterized s1 = rasterized s \<or> rasterized s1 = rasterized s @ [i]" by simp_all
      from ra show ?thesis
      proof
        assume "rasterized s1 = rasterized s"
        with sk rs True show ?thesis
          by (intro exI [of _ i] exI [of _ "i + 1"]) simp
      next
        assume "rasterized s1 = rasterized s @ [i]"
        with sk rs True show ?thesis
          by (intro exI [of _ "i + 1"]) simp
      qed
    qed
  qed
qed

subsection \<open>The paths through \<open>renderAndConvert\<close>\<close>

lemma tryBlock_invalid:
  "totalOutputFrames anim (fps opts) \<le> 0 \<Longrightarrow> tryBlock env anim opts w h s = (Inl InvalidDuration, s)"
  by (simp add: tryBlock_def)

lemma tryBlock_run:
  assumes n: "0 < n" "n = totalOutputFrames anim (fps opts)"
    and t: "tryBlock env anim opts w h s = (r, s')"
  shows "r \<noteq> Inl InvalidDuration \<and>
    containerCreated s' = containerCreated s \<and> containerInDom s' = containerInDom s \<and>
    animStatus s' = animStatus s \<and>
    configured s' = Some (selectConfig (probe env) (resolution opts) w h (fps opts))"
   (is ?static)
  and "\<exists>k fin. int k \<le> n \<and> (r = Inr BlobUrl \<longrightarrow> int k = n \<and> fin) \<and>
     encoded s' = encoded s @ map (\<lambda>j. (timestamp (fps opts) j, keyFrame (fps opts) j)) [0..<k] \<and>
     progressLog s' = progressLog s @
       [(Initializing (resolution opts) (fps opts), 5), (ProcessingFrames n, 10)] @
       map (\<lambda>j. (ProcessingFrame (j + 1) n, pct j n)) (filter (\<lambda>j. progressDue j n) [0..<k]) @
       (if fin then [(Finalizing, 98)] else [])"
   (is ?logs)
  and "\<exists>k m. k \<le> m \<and> m \<le> k + 1 \<and> int m \<le> n \<and>
     (r = Inr BlobUrl \<longrightarrow> k = m \<and> int m = n) \<and>
     seeks s' = seeks s @ map (\<lambda>j. lottieFrame j n anim) [0..<m] \<and>
     rasterized s' = rasterized s @ [0..<k]"
   (is ?seeks)
proof -
  define s3 where "s3 = onProgress (ProcessingFrames n) 10
    ((onProgress (Initializing (resolution opts) (fps opts)) 5 s)
       \<lparr>configured := Some (selectConfig (probe env) (resolution opts) w h (fps opts))\<rparr>)"
  obtain lr s4 where loop: "encodeLoop env anim (fps opts) n 0 s3 = (lr, s4)"
    by (cases "encodeLoop env anim (fps opts) n 0 s3")
  have s3: "containerCreated s3 = containerCreated s" "containerInDom s3 = containerInDom s"
    "animStatus s3 = animStatus s"
    "configured s3 = Some (selectConfig (probe env) (resolution opts) w h (fps opts))"
    "encoded s3 = encoded s" "seeks s3 = seeks s" "rasterized s3 = rasterized s"
    "progressLog s3 = progressLog s @
       [(Initializing (resolution opts) (fps opts), 5), (ProcessingFrames n, 10)]"
    by (simp_all add: s3_def onProgress_def)
  from encodeLoop_static [OF loop] s3
  have st: "lr \<noteq> Some InvalidDuration" "containerCreated s4 = containerCreated s"
    "containerInDom s4 = containerInDom s" "animStatus s4 = animStatus s"
    "configured s4 = Some (selectConfig (probe env) (resolution opts) w h (fps opts))"
    by simp_all
  from encodeLoop_logs [OF loop]
  obtain k where k0: "int k \<le> n \<or> k = 0" "lr = None \<longrightarrow> n \<le> int k"
    "encoded s4 = encoded s3 @ map (\<lambda>j. (timestamp (fps opts) j, keyFrame (fps opts) j)) [0..<k]"
    "progressLog s4 = progressLog s3 @
       map (\<lambda>j. (ProcessingFrame (j + 1) n, pct j n)) (filter (\<lambda>j. progressDue j n) [0..<k])"
    by blast
  have k: "int k \<le> n" "lr = None \<longrightarrow> n \<le> int k"
    "encoded s4 = encoded s @ map (\<lambda>j. (timestamp (fps opts) j, keyFrame (fps opts) j)) [0..<k]"
    "progressLog s4 = progressLog s @
       [(Initializing (resolution opts) (fps opts), 5), (ProcessingFrames n, 10)] @
       map (\<lambda>j. (ProcessingFrame (j + 1) n, pct j n)) (filter (\<lambda>j. progressDue j n) [0..<k])"
    using k0 n(1) s3(5,8) by auto
  from encodeLoop_seeks [OF loop]
  obtain k' m where m0: "k' \<le> m" "int m \<le> n \<or> m = 0"
    "seeks s4 = seeks s3 @ map (\<lambda>j. lottieFrame j n anim) [0..<m]"
    "rasterized s4 = rasterized s3 @ [0..<k']"
    and m1: "m \<le> k' + 1" "lr = None \<longrightarrow> k' = m \<and> n \<le> int m"
    by blast
  have m: "k' \<le> m" "int m \<le> n"
    "seeks s4 = seeks s @ map (\<lambda>j. lottieFrame j n anim) [0..<m]"
    "rasterized s4 = rasterized s @ [0..<k']"
    using m0 n(1) s3(6,7) by auto
  show ?static ?logs ?seeks
  proof (atomize (full), cases lr)
    case (Some e)
    with t n loop have rs: "r = Inl e" "s' = s4"
      by (simp_all add: tryBlock_def Let_def s3_def)
    have "?static" using rs st Some by simp
    moreover have "?logs" using rs k by (intro exI [of _ k] exI [of _ False]) simp
    moreover have "?seeks" using rs m m1(1) by (intro exI [of _ k'] exI [of _ m]) simp
    ultimately show "?static \<and> ?logs \<and> ?seeks" by blast
  next
    case None
    with t n loop have rs: "r \<noteq> Inl InvalidDuration"
      "containerCreated s' = containerCreated s4" "containerInDom s' = containerInDom s4"
      "animStatus s' = animStatus s4" "configured s' = configured s4"
      "encoded s' = encoded s4" "seeks s' = seeks s4" "rasterized s' = rasterized s4"
      "progressLog s' = progressLog s4 @ [(Finalizing, 98)]"
      by (auto simp: tryBlock_def Let_def s3_def onProgress_def split: if_splits)
    have "?static" using rs st by simp
    moreover have "?logs" using rs k None by (intro exI [of _ k] exI [of _ True]) simp
    moreover have "?seeks" using rs m m1 None by (intro exI [of _ k'] exI [of _ m]) simp
    ultimately show "?static \<and> ?logs \<and> ?seeks" by blast
  qed
qed

text \<open>The ways through \<open>renderAndConvert\<close>.\<close>

lemma rac_unsupported:
  "\<not> hasVideoEncoder env \<Longrightarrow> renderAndConvert env d opts = (Inl EncodingUnsupported, initial)"
  by (simp add: renderAndConvert_def split: prod.split)

lemma rac_noctx:
  "hasVideoEncoder env \<Longrightarrow> \<not> ctxAvailable env \<Longrightarrow>
   renderAndConvert env d opts =
     (Inl CanvasContextMissing, initial\<lparr>containerCreated := True, containerInDom := False\<rparr>)"
  by (simp add: renderAndConvert_def split: prod.split)

lemma rac_noload:
  "hasVideoEncoder env \<Longrightarrow> ctxAvailable env \<Longrightarrow> loadAnimationThrows env \<Longrightarrow>
   renderAndConvert env d opts =
     (Inl AnimationLoadFailed, initial\<lparr>containerCreated := True, containerInDom := True\<rparr>)"
  by (simp add: renderAndConvert_def split: prod.split)

lemma rac_try:
  assumes "hasVideoEncoder env" "ctxAvailable env" "\<not> loadAnimationThrows env"
  shows "\<exists>w h s3. getDimensions (resolution opts) (lf_w d) (lf_h d) = (w, h) \<and>
     tryBlock env (loadAnimation d) opts w h
       (initial\<lparr>containerCreated := True, containerInDom := True, animStatus := Live\<rparr>)
       = (fst (renderAndConvert env d opts), s3) \<and>
     snd (renderAndConvert env d opts) = finallyBlock s3"
  using assms by (auto simp: renderAndConvert_def Let_def split: prod.split)

lemma finallyBlock_fields:
  "containerCreated (finallyBlock s) = containerCreated s"
  "containerInDom (finallyBlock s) = False"
  "animStatus (finallyBlock s) = Destroyed"
  "configured (finallyBlock s) = configured s"
  "seeks (finallyBlock s) = seeks s"
  "rasterized (finallyBlock s) = rasterized s"
  "encoded (finallyBlock s) = encoded s"
  "progressLog (finallyBlock s) = progressLog s"
  by (simp_all add: finallyBlock_def)

lemma rac_invalid:
  assumes "hasVideoEncoder env" "ctxAvailable env" "\<not> loadAnimationThrows env"
    and "totalOutputFrames (loadAnimation d) (fps opts) \<le> 0"
  shows "renderAndConvert env d opts =
    (Inl InvalidDuration,
     finallyBlock (initial\<lparr>containerCreated := True, containerInDom := True, animStatus := Live\<rparr>))"
  using assms by (simp add: renderAndConvert_def tryBlock_invalid split: prod.split)

lemma rac_cases:
  obtains (unsupported) "\<not> hasVideoEncoder env"
      "renderAndConvert env d opts = (Inl EncodingUnsupported, initial)"
  | (noctx) "hasVideoEncoder env" "\<not> ctxAvailable env"
      "renderAndConvert env d opts =
        (Inl CanvasContextMissing, initial\<lparr>containerCreated := True, containerInDom := False\<rparr>)"
  | (noload) "hasVideoEncoder env" "ctxAvailable env" "loadAnimationThrows env"
      "renderAndConvert env d opts =
        (Inl AnimationLoadFailed, initial\<lparr>containerCreated := True, containerInDom := True\<rparr>)"
  | (invalid) "hasVideoEncoder env" "ctxAvailable env" "\<not> loadAnimationThrows env"
      "totalOutputFrames (loadAnimation d) (fps opts) \<le> 0"
      "renderAndConvert env d opts =
        (Inl InvalidDuration,
         finallyBlock (initial\<lparr>containerCreated := True, containerInDom := True, animStatus := Live\<rparr>))"
  | (run) w h s3 where "hasVideoEncoder env" "ctxAvailable env" "\<not> loadAnimationThrows env"
      "0 < totalOutputFrames (loadAnimation d) (fps opts)"
      "getDimensions (resolution opts) (lf_w d) (lf_h d) = (w, h)"
      "tryBlock env (loadAnimation d) opts w h
         (initial\<lparr>containerCreated := True, containerInDom := True, animStatus := Live\<rparr>)
         = (fst (renderAndConvert env d opts), s3)"
      "snd (renderAndConvert env d opts) = finallyBlock s3"
proof (cases "hasVideoEncoder env")
  case False
  then show ?thesis using unsupported rac_unsupported by blast
next
  case enc: True
  show ?thesis
  proof (cases "ctxAvailable env")
    case False
    then show ?thesis using noctx enc rac_noctx by blast
  next
    case ctx: True
    show ?thesis
    proof (cases "loadAnimationThrows env")
      case True
      then show ?thesis using noload enc ctx rac_noload by blast
    next
      case load: False
      show ?thesis
      proof (cases "totalOutputFrames (loadAnimation d) (fps opts) \<le> 0")
        case True
        then show ?thesis using invalid enc ctx load rac_invalid by blast
      next
        case False
        then have "0 < totalOutputFrames (loadAnimation d) (fps opts)" by simp
        with rac_try [OF enc ctx load, of opts d] run enc ctx load show ?thesis by blast
      qed
    qed
  qed
qed

text \<open>The logs of any call.\<close>

lemma rac_logs:
  fixes env d opts
  defines "n \<equiv> totalOutputFrames (loadAnimation d) (fps opts)"
  defines "r \<equiv> fst (renderAndConvert env d opts)"
  defines "s' \<equiv> snd (renderAndConvert env d opts)"
  shows "\<exists>k fin. (k = 0 \<or> int k \<le> n) \<and> (r = Inr BlobUrl \<longrightarrow> int k = n \<and> fin) \<and>
     encoded s' = map (\<lambda>j. (timestamp (fps opts) j, keyFrame (fps opts) j)) [0..<k] \<and>
     (progressLog s' = [] \<or>
      progressLog s' =
       [(Initializing (resolution opts) (fps opts), 5), (ProcessingFrames n, 10)] @
       map (\<lambda>j. (ProcessingFrame (j + 1) n, pct j n)) (filter (\<lambda>j. progressDue j n) [0..<k]) @
       (if fin then [(Finalizing, 98)] else []))"
proof (cases env d opts rule: rac_cases)
  case unsupported
  then show ?thesis unfolding r_def s'_def
    by (intro exI [of _ 0] exI [of _ False]) (simp add: initial_def)
next
  case noctx
  then show ?thesis unfolding r_def s'_def
    by (intro exI [of _ 0] exI [of _ False]) (simp add: initial_def)
next
  case noload
  then show ?thesis unfolding r_def s'_def
    by (intro exI [of _ 0] exI [of _ False]) (simp add: initial_def)
next
  case invalid
  then show ?thesis unfolding r_def s'_def
    by (intro exI [of _ 0] exI [of _ False]) (simp add: initial_def finallyBlock_def)
next
  case (run w h s3)
  from tryBlock_run(2) [OF run(4) refl run(6)]
  obtain k fin where "int k \<le> n" "r = Inr BlobUrl \<longrightarrow> int k = n \<and> fin"
    "encoded s3 = map (\<lambda>j. (timestamp (fps opts) j, keyFrame (fps opts) j)) [0..<k]"
    "progressLog s3 =
       [(Initializing (resolution opts) (fps opts), 5), (ProcessingFrames n, 10)] @
       map (\<lambda>j. (ProcessingFrame (j + 1) n, pct j n)) (filter (\<lambda>j. progressDue j n) [0..<k]) @
       (if fin then [(Finalizing, 98)] else [])"
    unfolding n_def r_def by (auto simp: initial_def)
  then show ?thesis unfolding s'_def run(7) finallyBlock_fields by blast
qed


lemma totalOutputFrames_pos_fps: "0 < totalOutputFrames anim f \<Longrightarrow> f \<noteq> 0"
  by (auto simp: totalOutputFrames_fps0)

lemma rac_encoded:
  fixes env d opts
  defines "s' \<equiv> snd (renderAndConvert env d opts)"
  shows "encoded s' = map (\<lambda>j. (timestamp (fps opts) j, keyFrame (fps opts) j)) [0..<length (encoded s')]"
    and "encoded s' \<noteq> [] \<Longrightarrow> fps opts \<noteq> 0"
    and "fst (renderAndConvert env d opts) = Inr BlobUrl \<Longrightarrow>
         int (length (encoded s')) = totalOutputFrames (loadAnimation d) (fps opts)"
proof -
  from rac_logs [where env = env and d = d and opts = opts]
  obtain k fin where k: "k = 0 \<or> int k \<le> totalOutputFrames (loadAnimation d) (fps opts)"
    "fst (renderAndConvert env d opts) = Inr BlobUrl \<longrightarrow>
       int k = totalOutputFrames (loadAnimation d) (fps opts) \<and> fin"
    "encoded s' = map (\<lambda>j. (timestamp (fps opts) j, keyFrame (fps opts) j)) [0..<k]"
    unfolding s'_def by blast
  from k(3) have len: "length (encoded s') = k" by simp
  from k(3) len show "encoded s' = map (\<lambda>j. (timestamp (fps opts) j, keyFrame (fps opts) j)) [0..<length (encoded s')]"
    by simp
  show "fps opts \<noteq> 0" if "encoded s' \<noteq> []"
  proof -
    from that len have "0 < k" by (cases k) auto
    with k(1) have "0 < totalOutputFrames (loadAnimation d) (fps opts)" by auto
    then show ?thesis by (rule totalOutputFrames_pos_fps)
  qed
  show "int (length (encoded s')) = totalOutputFrames (loadAnimation d) (fps opts)"
    if "fst (renderAndConvert env d opts) = Inr BlobUrl"
    using that k(2) len by simp
qed

text \<open>A call on a platform where nothing fails resolves to the video.\<close>

lemma encodeLoop_all_ok:
  assumes "\<And>j. frameOutcome env j = FrameOk"
  shows "fst (encodeLoop env anim f n i s) = None"
  using assms
proof (induction env anim f n i s rule: encodeLoop.induct)
  case (1 env anim f n i s)
  show ?case
  proof (cases "int i < n")
    case False
    then show ?thesis by (simp add: encodeLoop.simps)
  next
    case True
    obtain e s1 where body: "loopBody env anim f n i s = (e, s1)"
      by (cases "loopBody env anim f n i s")
    show ?thesis
    proof (cases e)
      case None
      from "1.IH" [OF True body [symmetric] None] "1.prems" True body None show ?thesis
        by (simp add: encodeLoop.simps [of _ _ _ _ i])
    next
      case (Some err)
      with body show ?thesis
        by (simp add: loopBody_def Let_def "1.prems")
    qed
  qed
qed

lemma rac_success:
  assumes "hasVideoEncoder env" "ctxAvailable env" "\<not> loadAnimationThrows env"
    and "\<And>j. frameOutcome env j = FrameOk" "flushOk env" "finalizeOk env"
    and "0 < totalOutputFrames (loadAnimation d) (fps opts)"
  shows "fst (renderAndConvert env d opts) = Inr BlobUrl"
proof -
  have "fst (tryBlock env anim opts w h s) = Inr BlobUrl"
    if pos: "0 < totalOutputFrames anim (fps opts)" for anim w h s
  proof -
    define s3 where "s3 = onProgress (ProcessingFrames (totalOutputFrames anim (fps opts))) 10
      ((onProgress (Initializing (resolution opts) (fps opts)) 5 s)
         \<lparr>configured := Some (selectConfig (probe env) (resolution opts) w h (fps opts))\<rparr>)"
    obtain lr s4 where
      loop: "encodeLoop env anim (fps opts) (totalOutputFrames anim (fps opts)) 0 s3 = (lr, s4)"
      by (cases "encodeLoop env anim (fps opts) (totalOutputFrames anim (fps opts)) 0 s3")
    from encodeLoop_all_ok [of env anim "fps opts" "totalOutputFrames anim (fps opts)" 0 s3,
        OF assms(4)] loop
    have "lr = None" by simp
    with loop pos assms(5,6) show ?thesis
      by (simp add: tryBlock_def Let_def s3_def)
  qed
  note tb = this
  from rac_try [OF assms(1-3), of opts d] obtain w h s3 where
    t: "tryBlock env (loadAnimation d) opts w h
       (initial\<lparr>containerCreated := True, containerInDom := True, animStatus := Live\<rparr>)
       = (fst (renderAndConvert env d opts), s3)"
    by blast
  from tb [OF assms(7), of w h
      "initial\<lparr>containerCreated := True, containerInDom := True, animStatus := Live\<rparr>"] t
  show ?thesis by simp
qed

subsection \<open>The example run\<close>

lemma example_frames: "totalOutputFrames (loadAnimation exampleDocument) (fps exampleOptions) = 3"
  by code_simp
lemma example_result: "fst (renderAndConvert examplePlatform exampleDocument exampleOptions) = Inr BlobUrl"
  by code_simp
lemma example_encoded: "encoded (snd (renderAndConvert examplePlatform exampleDocument exampleOptions)) =
   [(0, True), (33333, False), (66667, False)]"
  by code_simp

subsection \<open>The duration check\<close>

lemma sgn_mult_nonpos:
  assumes "sgn (u::rat) = sgn v"
  shows "u * c \<le> 0 \<longleftrightarrow> v * c \<le> 0"
proof -
  have "0 < u * c \<longleftrightarrow> 0 < sgn (u * c)" by (simp only: sgn_greater)
  also have "\<dots> \<longleftrightarrow> 0 < sgn (v * c)" by (simp only: sgn_mult assms)
  also have "\<dots> \<longleftrightarrow> 0 < v * c" by (simp only: sgn_greater)
  finally have "0 < u * c \<longleftrightarrow> 0 < v * c" .
  then show ?thesis by (simp only: not_less [symmetric])
qed

lemma totalOutputFrames_unfold:
  "totalOutputFrames (loadAnimation d) f =
     \<lceil>js_mul (js_div (of_int (lf_op d - lf_ip d)) (if lf_fr d = 0 then 30 else toDouble (lf_fr d)))
        (of_int f)\<rceil>"
  by (simp add: totalOutputFrames_def loadAnimation_def Let_def toDouble_eq_0_iff)

lemma totalOutputFrames_sign:
  assumes "lf_fr d \<noteq> 0"
  shows "totalOutputFrames (loadAnimation d) f \<le> 0 \<longleftrightarrow> spec_totalOutputFrames d f \<le> 0"
proof -
  let ?a = "of_int (lf_op d - lf_ip d) :: rat"
  let ?q = "toDouble (?a / toDouble (lf_fr d))"
  have "sgn ?q = sgn (?a / toDouble (lf_fr d))" by (rule toDouble_sgn)
  also have "\<dots> = sgn ?a / sgn (toDouble (lf_fr d))" by (rule sgn_divide)
  also have "\<dots> = sgn ?a / sgn (lf_fr d)" by (simp only: toDouble_sgn)
  also have "\<dots> = sgn (?a / lf_fr d)" by (rule sgn_divide [symmetric])
  finally have sg: "sgn ?q = sgn (?a / lf_fr d)" .
  have "totalOutputFrames (loadAnimation d) f \<le> 0 \<longleftrightarrow> toDouble (?q * of_int f) \<le> 0"
    using assms by (simp add: totalOutputFrames_unfold js_mul_def js_div_def ceiling_le_iff)
  also have "\<dots> \<longleftrightarrow> ?q * of_int f \<le> 0" by (rule toDouble_nonpos_iff)
  also have "\<dots> \<longleftrightarrow> (?a / lf_fr d) * of_int f \<le> 0" using sg by (rule sgn_mult_nonpos)
  also have "\<dots> \<longleftrightarrow> spec_totalOutputFrames d f \<le> 0"
    by (simp add: spec_totalOutputFrames_def ceiling_le_iff)
  finally show ?thesis .
qed

text \<open>
  Claim C1, as stated, fails: the frame count is the ceiling of a product of doubles,
  not of the exact quotient. The document below has 31 source frames at 30 frames per
  second and is converted at 30 frames per second. The double \<open>(31 / 30) * 30\<close> is
  \<open>31.000000000000004\<close>, so the code computes 32 output frames, and on a platform where
  nothing fails it submits 32 frames to the encoder. The formula of the claim gives 31.
\<close>

theorem totalOutputFrames_double_rounding_counterexample:
  "totalOutputFrames (loadAnimation (exampleDocument\<lparr>lf_op := 31\<rparr>)) (fps exampleOptions) = 32 \<and>
   spec_totalOutputFrames (exampleDocument\<lparr>lf_op := 31\<rparr>) (fps exampleOptions) = 31 \<and>
   fst (renderAndConvert examplePlatform (exampleDocument\<lparr>lf_op := 31\<rparr>) exampleOptions)
     = Inr BlobUrl \<and>
   length (encoded (snd (renderAndConvert examplePlatform
     (exampleDocument\<lparr>lf_op := 31\<rparr>) exampleOptions))) = 32"
proof -
  have n: "totalOutputFrames (loadAnimation (exampleDocument\<lparr>lf_op := 31\<rparr>)) (fps exampleOptions) = 32"
    by code_simp
  have sp: "spec_totalOutputFrames (exampleDocument\<lparr>lf_op := 31\<rparr>) (fps exampleOptions) = 31"
    by code_simp
  have ok: "fst (renderAndConvert examplePlatform (exampleDocument\<lparr>lf_op := 31\<rparr>) exampleOptions)
     = Inr BlobUrl"
    by (rule rac_success) (simp_all add: examplePlatform_def n)
  from rac_encoded(3) [OF ok] n
  have "length (encoded (snd (renderAndConvert examplePlatform
     (exampleDocument\<lparr>lf_op := 31\<rparr>) exampleOptions))) = 32"
    by simp
  with n sp ok show ?thesis by blast
qed

text \<open>
  Claim C1, amended. For every animation document and target fps the conversion computes
  \<open>totalOutputFrames = Math.ceil((totalFrames / fr) * targetFps)\<close> in double arithmetic:
  the quotient of \<open>outPoint - inPoint\<close> by \<open>fr\<close> is rounded to a double, its product with
  the target fps is rounded to a double, and the ceiling of that is taken; \<open>fr\<close> is the
  declared frame rate, or 30 when the declared frame rate is zero. The count can exceed
  the ceiling of the exact value, but for a non-zero frame rate it is \<open>\<le> 0\<close> exactly when
  the exact formula of the spec is. The call fails with \<open>InvalidDuration\<close> exactly when
  the encoder API exists, the canvas context was obtained, the animation was loaded and
  \<open>totalOutputFrames \<le> 0\<close>; an empty frame range (\<open>outPoint = inPoint\<close>) gives
  \<open>totalOutputFrames \<le> 0\<close>; and when the call fails so, no seek was made, no frame was
  rasterized and none was submitted to the encoder.
\<close>

theorem duration_check:
  fixes env d opts
  defines "n \<equiv> totalOutputFrames (loadAnimation d) (fps opts)"
  defines "r \<equiv> fst (renderAndConvert env d opts)"
  defines "s' \<equiv> snd (renderAndConvert env d opts)"
  shows "n = \<lceil>js_mul (js_div (of_int (lf_op d - lf_ip d))
                  (if lf_fr d = 0 then 30 else toDouble (lf_fr d))) (of_int (fps opts))\<rceil> \<and>
    (lf_fr d \<noteq> 0 \<longrightarrow> (n \<le> 0 \<longleftrightarrow> spec_totalOutputFrames d (fps opts) \<le> 0)) \<and>
    (r = Inl InvalidDuration \<longleftrightarrow>
       hasVideoEncoder env \<and> ctxAvailable env \<and> \<not> loadAnimationThrows env \<and> n \<le> 0) \<and>
    (lf_op d = lf_ip d \<longrightarrow> n \<le> 0) \<and>
    (r = Inl InvalidDuration \<longrightarrow> seeks s' = [] \<and> rasterized s' = [] \<and> encoded s' = [])"
proof -
  have f: "n = \<lceil>js_mul (js_div (of_int (lf_op d - lf_ip d))
                  (if lf_fr d = 0 then 30 else toDouble (lf_fr d))) (of_int (fps opts))\<rceil>"
    unfolding n_def by (rule totalOutputFrames_unfold)
  have sp: "lf_fr d \<noteq> 0 \<longrightarrow> (n \<le> 0 \<longleftrightarrow> spec_totalOutputFrames d (fps opts) \<le> 0)"
    unfolding n_def using totalOutputFrames_sign [of d "fps opts"] by blast
  have still: "lf_op d = lf_ip d \<longrightarrow> n \<le> 0"
    using f by (simp add: js_div_def js_mul_def toDouble_zero)
  have "(r = Inl InvalidDuration \<longleftrightarrow>
       hasVideoEncoder env \<and> ctxAvailable env \<and> \<not> loadAnimationThrows env \<and> n \<le> 0) \<and>
    (r = Inl InvalidDuration \<longrightarrow> seeks s' = [] \<and> rasterized s' = [] \<and> encoded s' = [])"
  proof (cases env d opts rule: rac_cases)
    case unsupported
    then show ?thesis by (simp add: r_def)
  next
    case noctx
    then show ?thesis by (simp add: r_def)
  next
    case noload
    then show ?thesis by (simp add: r_def)
  next
    case invalid
    then show ?thesis by (simp add: r_def s'_def n_def finallyBlock_def initial_def)
  next
    case (run w h s3)
    from tryBlock_run(1) [OF run(4) refl run(6)] run(1-4) show ?thesis
      by (simp add: r_def n_def)
  qed
  with f sp still show ?thesis by blast
qed

theorem duration_check_witness:
  "lf_fr (exampleDocument\<lparr>lf_op := 0\<rparr>) \<noteq> 0 \<and>
   lf_op (exampleDocument\<lparr>lf_op := 0\<rparr>) = lf_ip (exampleDocument\<lparr>lf_op := 0\<rparr>) \<and>
   spec_totalOutputFrames (exampleDocument\<lparr>lf_op := 0\<rparr>) (fps exampleOptions) \<le> 0 \<and>
   fst (renderAndConvert examplePlatform (exampleDocument\<lparr>lf_op := 0\<rparr>) exampleOptions) = Inl InvalidDuration \<and>
   rasterized (snd (renderAndConvert examplePlatform (exampleDocument\<lparr>lf_op := 0\<rparr>) exampleOptions)) = []"
proof -
  have a: "lf_fr (exampleDocument\<lparr>lf_op := 0\<rparr>) \<noteq> 0"
    "lf_op (exampleDocument\<lparr>lf_op := 0\<rparr>) = lf_ip (exampleDocument\<lparr>lf_op := 0\<rparr>)"
    "hasVideoEncoder examplePlatform" "ctxAvailable examplePlatform"
    "\<not> loadAnimationThrows examplePlatform"
    by (simp_all add: exampleDocument_def examplePlatform_def)
  from duration_check [of "exampleDocument\<lparr>lf_op := 0\<rparr>" exampleOptions examplePlatform] a
  show ?thesis by blast
qed

subsection \<open>Failing fast without an encoder\<close>

text \<open>
  Claim C8. When \<open>VideoEncoder\<close> is not defined, the call fails with
  \<open>EncodingUnsupported\<close> and nothing has been done before: no container was created or
  attached, no animation was loaded, no seek was made, no frame was rasterized or
  encoded, and no progress was reported.
\<close>

theorem encoding_unsupported_fails_fast:
  assumes "\<not> hasVideoEncoder env"
  shows "fst (renderAndConvert env d opts) = Inl EncodingUnsupported \<and>
    \<not> containerCreated (snd (renderAndConvert env d opts)) \<and>
    \<not> containerInDom (snd (renderAndConvert env d opts)) \<and>
    animStatus (snd (renderAndConvert env d opts)) = NotLoaded \<and>
    seeks (snd (renderAndConvert env d opts)) = [] \<and>
    rasterized (snd (renderAndConvert env d opts)) = [] \<and>
    encoded (snd (renderAndConvert env d opts)) = [] \<and>
    progressLog (snd (renderAndConvert env d opts)) = []"
  using assms by (simp add: rac_unsupported initial_def)

theorem encoding_unsupported_fails_fast_witness:
  "\<not> hasVideoEncoder (examplePlatform\<lparr>hasVideoEncoder := False\<rparr>) \<and>
   fst (renderAndConvert (examplePlatform\<lparr>hasVideoEncoder := False\<rparr>) exampleDocument exampleOptions)
     = Inl EncodingUnsupported \<and>
   \<not> containerCreated (snd (renderAndConvert (examplePlatform\<lparr>hasVideoEncoder := False\<rparr>) exampleDocument exampleOptions)) \<and>
   rasterized (snd (renderAndConvert (examplePlatform\<lparr>hasVideoEncoder := False\<rparr>) exampleDocument exampleOptions)) = []"
proof -
  have a: "\<not> hasVideoEncoder (examplePlatform\<lparr>hasVideoEncoder := False\<rparr>)" by simp
  from encoding_unsupported_fails_fast [OF a, of exampleDocument exampleOptions] a
  show ?thesis by blast
qed

subsection \<open>Release of the rendering resources\<close>

text \<open>
  Claim C9 asks that on every exit, a thrown error at any point included, the animation
  instance is destroyed and the container is removed from the document. The code does
  this on every exit but one. The container is in the document after the call exactly
  when \<open>lottie.loadAnimation\<close> has thrown: that statement stands between \<open>appendChild\<close>
  (line 63) and the \<open>try\<close> (line 102), so its exception passes neither the removal that
  the canvas-context exit does by hand nor the \<open>finally\<close> block. No animation instance
  is ever left alive. The second half evaluates the call on the example platform with a
  throwing \<open>lottie.loadAnimation\<close>: it fails with that error and the container is
  still in the document.
\<close>

theorem container_left_when_load_throws:
  "(containerInDom (snd (renderAndConvert env d opts)) \<longleftrightarrow>
      hasVideoEncoder env \<and> ctxAvailable env \<and> loadAnimationThrows env) \<and>
   animStatus (snd (renderAndConvert env d opts)) \<noteq> Live \<and>
   (animStatus (snd (renderAndConvert env d opts)) = Destroyed \<longleftrightarrow>
      hasVideoEncoder env \<and> ctxAvailable env \<and> \<not> loadAnimationThrows env) \<and>
   fst (renderAndConvert (examplePlatform\<lparr>loadAnimationThrows := True\<rparr>) exampleDocument exampleOptions)
     = Inl AnimationLoadFailed \<and>
   containerInDom (snd (renderAndConvert (examplePlatform\<lparr>loadAnimationThrows := True\<rparr>)
     exampleDocument exampleOptions))"
proof -
  have gen: "(containerInDom (snd (renderAndConvert env d opts)) \<longleftrightarrow>
      hasVideoEncoder env \<and> ctxAvailable env \<and> loadAnimationThrows env) \<and>
   animStatus (snd (renderAndConvert env d opts)) \<noteq> Live \<and>
   (animStatus (snd (renderAndConvert env d opts)) = Destroyed \<longleftrightarrow>
      hasVideoEncoder env \<and> ctxAvailable env \<and> \<not> loadAnimationThrows env)"
  proof (cases env d opts rule: rac_cases)
    case unsupported
    then show ?thesis by (simp add: initial_def)
  next
    case noctx
    then show ?thesis by (simp add: initial_def)
  next
    case noload
    then show ?thesis by (simp add: initial_def)
  next
    case invalid
    then show ?thesis by (simp add: initial_def finallyBlock_def)
  next
    case (run w h s3)
    from tryBlock_run(1) [OF run(4) refl run(6)] run(1-3,7) show ?thesis
      by (simp add: finallyBlock_fields initial_def)
  qed
  have "renderAndConvert (examplePlatform\<lparr>loadAnimationThrows := True\<rparr>) exampleDocument exampleOptions
    = (Inl AnimationLoadFailed, initial\<lparr>containerCreated := True, containerInDom := True\<rparr>)"
    by (rule rac_noload) (simp_all add: examplePlatform_def)
  then have "fst (renderAndConvert (examplePlatform\<lparr>loadAnimationThrows := True\<rparr>) exampleDocument exampleOptions)
     = Inl AnimationLoadFailed \<and>
   containerInDom (snd (renderAndConvert (examplePlatform\<lparr>loadAnimationThrows := True\<rparr>)
     exampleDocument exampleOptions))"
    by simp
  with gen show ?thesis by blast
qed

subsection \<open>Encoder negotiation\<close>

lemma loopBody_probe:
  "loopBody (env\<lparr>probe := p\<rparr>) anim f n i s = loopBody env anim f n i s"
  by (simp add: loopBody_def)

lemma encodeLoop_probe:
  "encodeLoop (env\<lparr>probe := p\<rparr>) anim f n i s = encodeLoop env anim f n i s"
proof (induction env anim f n i s rule: encodeLoop.induct)
  case (1 env anim f n i s)
  show ?case
  proof (cases "int i < n")
    case False
    then show ?thesis by (simp add: encodeLoop.simps)
  next
    case True
    obtain e s1 where body: "loopBody env anim f n i s = (e, s1)"
      by (cases "loopBody env anim f n i s")
    show ?thesis
    proof (cases e)
      case None
      from "1.IH" [OF True body [symmetric] None] True body None show ?thesis
        by (simp add: encodeLoop.simps [of _ _ _ _ i] loopBody_probe)
    next
      case (Some err)
      with True body show ?thesis
        by (simp add: encodeLoop.simps [of _ _ _ _ i] loopBody_probe)
    qed
  qed
qed

lemma tryBlock_probe:
  "selectConfig p res w h (fps opts) = selectConfig q res w h (fps opts) \<Longrightarrow> res = resolution opts \<Longrightarrow>
   tryBlock (env\<lparr>probe := p\<rparr>) anim opts w h s = tryBlock (env\<lparr>probe := q\<rparr>) anim opts w h s"
  by (simp add: tryBlock_def encodeLoop_probe Let_def split: prod.split option.split)

text \<open>
  Claim C2. For every resolution value the negotiator selects the high profile when
  the probe reports \<open>supported = true\<close>, with the bitrate 40 Mb/s for UHD and 15 Mb/s
  otherwise, and the conservative profile with 10 Mb/s when the probe reports
  \<open>supported = false\<close> or throws (the code names that profile \<open>mainProfileConfig\<close>, the
  spec calls it the baseline). A probe that throws is not seen by the caller: the whole
  call behaves as with a probe that answers "unsupported". A call that reaches the encoder
  (encoder API, canvas context and animation present, at least one output frame)
  configures it with the selected profile, and a call that ends before does not configure
  an encoder at all.
\<close>

theorem encoder_negotiation:
  "selectConfig (Supported True) res w h f = highProfileConfig res w h f \<and>
   bitrate (highProfileConfig res w h f) = (if res = UHD then 40000000 else 15000000) \<and>
   selectConfig (Supported False) res w h f = mainProfileConfig w h f \<and>
   selectConfig ProbeThrows res w h f = mainProfileConfig w h f \<and>
   bitrate (mainProfileConfig w h f) = 10000000 \<and>
   renderAndConvert (env\<lparr>probe := ProbeThrows\<rparr>) d opts =
     renderAndConvert (env\<lparr>probe := Supported False\<rparr>) d opts \<and>
   (hasVideoEncoder env \<and> ctxAvailable env \<and> \<not> loadAnimationThrows env \<and>
    0 < totalOutputFrames (loadAnimation d) (fps opts) \<longrightarrow>
      configured (snd (renderAndConvert env d opts)) =
        Some (selectConfig (probe env) (resolution opts)
               (fst (getDimensions (resolution opts) (lf_w d) (lf_h d)))
               (snd (getDimensions (resolution opts) (lf_w d) (lf_h d))) (fps opts))) \<and>
   (\<not> (hasVideoEncoder env \<and> ctxAvailable env \<and> \<not> loadAnimationThrows env \<and>
       0 < totalOutputFrames (loadAnimation d) (fps opts)) \<longrightarrow>
      configured (snd (renderAndConvert env d opts)) = None)"
proof -
  have sel: "selectConfig (Supported True) res w h f = highProfileConfig res w h f"
    "selectConfig (Supported False) res w h f = mainProfileConfig w h f"
    "selectConfig ProbeThrows res w h f = mainProfileConfig w h f"
    by (simp_all add: selectConfig_def)
  have rates: "bitrate (highProfileConfig res w h f) = (if res = UHD then 40000000 else 15000000)"
    "bitrate (mainProfileConfig w h f) = 10000000"
    by (simp_all add: highProfileConfig_def mainProfileConfig_def)
  have same: "renderAndConvert (env\<lparr>probe := ProbeThrows\<rparr>) d opts =
     renderAndConvert (env\<lparr>probe := Supported False\<rparr>) d opts"
  proof -
    have "tryBlock (env\<lparr>probe := ProbeThrows\<rparr>) anim opts w' h' s =
      tryBlock (env\<lparr>probe := Supported False\<rparr>) anim opts w' h' s" for anim w' h' s
      by (rule tryBlock_probe) (simp_all add: selectConfig_def)
    then show ?thesis by (simp add: renderAndConvert_def Let_def split: prod.split)
  qed
  have conf: "configured (snd (renderAndConvert env d opts)) =
        Some (selectConfig (probe env) (resolution opts)
               (fst (getDimensions (resolution opts) (lf_w d) (lf_h d)))
               (snd (getDimensions (resolution opts) (lf_w d) (lf_h d))) (fps opts))"
    if "hasVideoEncoder env" "ctxAvailable env" "\<not> loadAnimationThrows env"
      "0 < totalOutputFrames (loadAnimation d) (fps opts)"
  proof -
    from rac_try [OF that(1,2,3), of opts d] obtain w' h' s3 where
      g: "getDimensions (resolution opts) (lf_w d) (lf_h d) = (w', h')"
      and t: "tryBlock env (loadAnimation d) opts w' h'
       (initial\<lparr>containerCreated := True, containerInDom := True, animStatus := Live\<rparr>)
       = (fst (renderAndConvert env d opts), s3)"
      and s: "snd (renderAndConvert env d opts) = finallyBlock s3" by blast
    from tryBlock_run(1) [OF that(4) refl t] g s show ?thesis
      by (simp add: finallyBlock_fields)
  qed
  have none: "configured (snd (renderAndConvert env d opts)) = None"
    if "\<not> (hasVideoEncoder env \<and> ctxAvailable env \<and> \<not> loadAnimationThrows env \<and>
       0 < totalOutputFrames (loadAnimation d) (fps opts))"
  proof (cases env d opts rule: rac_cases)
    case unsupported
    then show ?thesis by (simp add: initial_def)
  next
    case noctx
    then show ?thesis by (simp add: initial_def)
  next
    case noload
    then show ?thesis by (simp add: initial_def)
  next
    case invalid
    then show ?thesis by (simp add: initial_def finallyBlock_def)
  next
    case (run w' h' s3)
    with that show ?thesis by simp
  qed
  from sel rates same conf none show ?thesis by blast
qed

theorem encoder_negotiation_witness:
  "hasVideoEncoder examplePlatform \<and> ctxAvailable examplePlatform \<and>
   \<not> loadAnimationThrows examplePlatform \<and>
   0 < totalOutputFrames (loadAnimation exampleDocument) (fps exampleOptions) \<and>
   configured (snd (renderAndConvert examplePlatform exampleDocument exampleOptions)) =
     Some \<lparr>codec = ''avc1.640033'', width = 1920, height = 1080, bitrate = 15000000, framerate = 30\<rparr> \<and>
   \<not> hasVideoEncoder (examplePlatform\<lparr>hasVideoEncoder := False\<rparr>) \<and>
   configured (snd (renderAndConvert (examplePlatform\<lparr>hasVideoEncoder := False\<rparr>)
     exampleDocument exampleOptions)) = None"
proof -
  have a: "hasVideoEncoder examplePlatform" "ctxAvailable examplePlatform"
    "\<not> loadAnimationThrows examplePlatform"
    "0 < totalOutputFrames (loadAnimation exampleDocument) (fps exampleOptions)"
    by (simp_all add: examplePlatform_def example_frames)
  have b: "selectConfig (probe examplePlatform) (resolution exampleOptions)
       (fst (getDimensions (resolution exampleOptions) (lf_w exampleDocument) (lf_h exampleDocument)))
       (snd (getDimensions (resolution exampleOptions) (lf_w exampleDocument) (lf_h exampleDocument)))
       (fps exampleOptions) =
     \<lparr>codec = ''avc1.640033'', width = 1920, height = 1080, bitrate = 15000000, framerate = 30\<rparr>"
    by code_simp
  have c: "\<not> hasVideoEncoder (examplePlatform\<lparr>hasVideoEncoder := False\<rparr>)" by simp
  from encoder_negotiation [where env = examplePlatform and d = exampleDocument and opts = exampleOptions] a b
  have first: "configured (snd (renderAndConvert examplePlatform exampleDocument exampleOptions)) =
     Some \<lparr>codec = ''avc1.640033'', width = 1920, height = 1080, bitrate = 15000000, framerate = 30\<rparr>"
    by simp
  from encoder_negotiation [where env = "examplePlatform\<lparr>hasVideoEncoder := False\<rparr>"
      and d = exampleDocument and opts = exampleOptions] c
  have second: "configured (snd (renderAndConvert (examplePlatform\<lparr>hasVideoEncoder := False\<rparr>)
     exampleDocument exampleOptions)) = None"
    by blast
  from a c first second show ?thesis by blast
qed

subsection \<open>Sample times\<close>



subsection \<open>Key frames\<close>

lemma keyFrame_multiples:
  assumes "0 < f"
  shows "keyFrame f i \<longleftrightarrow> (\<exists>m::nat. i = m * nat (f * 2))"
proof -
  have "keyFrame f i \<longleftrightarrow> (f * 2) dvd int i"
    using assms by (simp add: keyFrame_def js_rem_zero_iff)
  also have "\<dots> \<longleftrightarrow> int (nat (f * 2)) dvd int i" using assms by simp
  also have "\<dots> \<longleftrightarrow> nat (f * 2) dvd i" by (simp only: int_dvd_int_iff)
  also have "\<dots> \<longleftrightarrow> (\<exists>m::nat. i = m * nat (f * 2))" by (auto simp: dvd_def mult.commute)
  finally show ?thesis .
qed

text \<open>
  Claim C4. The key-frame flags submitted to the encoder are, in order of the frame index
  \<open>i\<close>, the truth values of \<open>i mod (targetFps * 2) = 0\<close>; a successful call submits
  \<open>totalOutputFrames\<close> frames. The flag computed by the code, \<open>i % (fps * 2) === 0\<close>,
  agrees with that for every non-zero target fps (the loop is not reached with a target
  of zero), and for a positive target fps it is true exactly at the multiples
  \<open>0, targetFps * 2, targetFps * 4, ...\<close>.
\<close>

theorem keyframe_flags:
  "map snd (encoded (snd (renderAndConvert env d opts))) =
     map (\<lambda>i. int i mod (fps opts * 2) = 0) [0..<length (encoded (snd (renderAndConvert env d opts)))] \<and>
   (fst (renderAndConvert env d opts) = Inr BlobUrl \<longrightarrow>
      int (length (encoded (snd (renderAndConvert env d opts)))) =
        totalOutputFrames (loadAnimation d) (fps opts)) \<and>
   (f \<noteq> 0 \<longrightarrow> keyFrame f i = (int i mod (f * 2) = 0)) \<and>
   (0 < f \<longrightarrow> keyFrame f i = (\<exists>m::nat. i = m * nat (f * 2)))"
proof -
  let ?s = "snd (renderAndConvert env d opts)"
  have "map snd (encoded ?s) = map (keyFrame (fps opts)) [0..<length (encoded ?s)]"
    by (subst rac_encoded(1) [where env = env and d = d and opts = opts]) (simp add: comp_def)
  moreover have "map (keyFrame (fps opts)) [0..<length (encoded ?s)] =
     map (\<lambda>i. int i mod (fps opts * 2) = 0) [0..<length (encoded ?s)]"
  proof (cases "encoded ?s = []")
    case True
    then show ?thesis by simp
  next
    case False
    then have "fps opts \<noteq> 0" by (rule rac_encoded(2))
    then show ?thesis by (simp add: keyFrame_iff)
  qed
  ultimately have run: "map snd (encoded ?s) =
     map (\<lambda>i. int i mod (fps opts * 2) = 0) [0..<length (encoded ?s)]" by simp
  from run rac_encoded(3) [of env d opts] keyFrame_iff [of f i] keyFrame_multiples [of f i]
  show ?thesis by blast
qed

theorem keyframe_flags_witness:
  "fst (renderAndConvert examplePlatform exampleDocument exampleOptions) = Inr BlobUrl \<and>
   (30::int) \<noteq> 0 \<and> (0::int) < 30 \<and>
   map snd (encoded (snd (renderAndConvert examplePlatform exampleDocument exampleOptions))) =
     [True, False, False] \<and>
   keyFrame 30 120 \<and> \<not> keyFrame 30 90"
proof -
  have a: "fst (renderAndConvert examplePlatform exampleDocument exampleOptions) = Inr BlobUrl"
    by (rule example_result)
  have b: "(30::int) \<noteq> 0" "(0::int) < 30" by simp_all
  have c: "int 120 mod (30 * 2) = 0" "int 90 mod (30 * 2) \<noteq> 0" by simp_all
  have n: "totalOutputFrames (loadAnimation exampleDocument) (fps exampleOptions) = 3"
    by (rule example_frames)
  have f: "fps exampleOptions = 30" by (simp add: exampleOptions_def FPS_30_def)
  from keyframe_flags [where env = examplePlatform and d = exampleDocument and opts = exampleOptions
      and f = 30 and i = 120] a n
  have "map snd (encoded (snd (renderAndConvert examplePlatform exampleDocument exampleOptions))) =
     map (\<lambda>i. int i mod (fps exampleOptions * 2) = 0) [0..<3]" and "keyFrame 30 120"
    by simp_all
  moreover have "map (\<lambda>i. int i mod (fps exampleOptions * 2) = 0) [0..<3] = [True, False, False]"
    unfolding f by (simp add: upt_rec)
  moreover from keyframe_flags [where env = examplePlatform and d = exampleDocument and opts = exampleOptions
      and f = 30 and i = 90]
  have "\<not> keyFrame 30 90" by simp
  ultimately show ?thesis using a b by simp
qed

subsection \<open>Presentation timestamps\<close>

lemma strict_sorted_map_upt:
  assumes "\<And>i j. i < j \<Longrightarrow> j < k \<Longrightarrow> g i < (g j :: int)"
  shows "sorted_wrt (<) (map g [0..<k])"
  using assms by (simp add: sorted_wrt_iff_nth_less)

text \<open>
  Claim C6. The timestamp of output frame \<open>i\<close> is \<open>round(i * (1000000 / targetFps))\<close>,
  the timestamps submitted to the encoder are these values in the order of \<open>i\<close>, and for
  a target fps of 30, 60 or 120 they increase strictly with \<open>i\<close>, so the list submitted
  in one call is strictly increasing.
\<close>

theorem timestamps_increase:
  "timestamp f i = round (of_nat i * (1000000 / of_int f) :: rat) \<and>
   map fst (encoded (snd (renderAndConvert env d opts))) =
     map (timestamp (fps opts)) [0..<length (encoded (snd (renderAndConvert env d opts)))] \<and>
   (f \<in> {FPS_30, FPS_60, FPS_120} \<longrightarrow> (i < j \<longrightarrow> timestamp f i < timestamp f j)) \<and>
   (fps opts \<in> {FPS_30, FPS_60, FPS_120} \<longrightarrow>
      sorted_wrt (<) (map fst (encoded (snd (renderAndConvert env d opts)))))"
proof -
  let ?s = "snd (renderAndConvert env d opts)"
  have def: "timestamp f i = round (of_nat i * (1000000 / of_int f) :: rat)"
    by (simp add: timestamp_def frameIntervalMicroseconds_def)
  have run: "map fst (encoded ?s) = map (timestamp (fps opts)) [0..<length (encoded ?s)]"
    by (subst rac_encoded(1) [where env = env and d = d and opts = opts]) (simp add: comp_def)
  have strict: "timestamp g a < timestamp g b"
    if "g \<in> {FPS_30, FPS_60, FPS_120}" "a < b" for g a b
  proof -
    from that(1) have "0 < g" "g \<le> 1000000" by (auto simp: FPS_30_def FPS_60_def FPS_120_def)
    then show ?thesis using that(2) by (rule timestamp_strict)
  qed
  have sorted: "sorted_wrt (<) (map fst (encoded ?s))" if "fps opts \<in> {FPS_30, FPS_60, FPS_120}"
    by (subst run, rule strict_sorted_map_upt) (rule strict [OF that])
  from def run strict sorted show ?thesis by blast
qed

theorem timestamps_increase_witness:
  "FPS_30 \<in> {FPS_30, FPS_60, FPS_120} \<and> (1::nat) < 2 \<and> timestamp FPS_30 1 < timestamp FPS_30 2 \<and>
   fps exampleOptions \<in> {FPS_30, FPS_60, FPS_120} \<and>
   sorted_wrt (<) (map fst (encoded (snd (renderAndConvert examplePlatform exampleDocument exampleOptions)))) \<and>
   map fst (encoded (snd (renderAndConvert examplePlatform exampleDocument exampleOptions))) = [0, 33333, 66667]"
proof -
  have a: "FPS_30 \<in> {FPS_30, FPS_60, FPS_120}" "(1::nat) < 2"
    "fps exampleOptions \<in> {FPS_30, FPS_60, FPS_120}"
    by (simp_all add: exampleOptions_def)
  have b: "map fst (encoded (snd (renderAndConvert examplePlatform exampleDocument exampleOptions))) = [0, 33333, 66667]"
    by (simp add: example_encoded)
  from timestamps_increase [where env = examplePlatform and d = exampleDocument and opts = exampleOptions
      and f = FPS_30 and i = 1 and j = 2] a b
  show ?thesis by blast
qed

subsection \<open>Progress events\<close>

lemma loop_pct_bounds:
  assumes "k = 0 \<or> int k \<le> n" and "p \<in> set (map (\<lambda>j. pct j n) (filter P [0..<k]))"
  shows "10 \<le> p \<and> p \<le> 95"
proof -
  from assms(2) obtain j where j: "j < k" "p = pct j n" by auto
  with assms(1) have "int j < n" by auto
  then show ?thesis unfolding j(2) by (rule pct_bounds)
qed

lemma loop_pct_sorted:
  assumes "k = 0 \<or> int k \<le> n"
  shows "sorted (map (\<lambda>j. pct j n) (filter P [0..<k]))"
proof -
  have "sorted_wrt (\<lambda>a b. pct a n \<le> pct b n) [0..<k]"
  proof (simp only: sorted_wrt_iff_nth_less, intro allI impI)
    fix i j assume ij: "i < j" "j < length [0..<k]"
    then have "0 < n" using assms by auto
    then have "pct i n \<le> pct j n" using ij(1) by (intro pct_mono) simp_all
    with ij show "pct ([0..<k] ! i) n \<le> pct ([0..<k] ! j) n" by simp
  qed
  then have "sorted_wrt (\<lambda>a b. pct a n \<le> pct b n) (filter P [0..<k])"
    by (rule sorted_wrt_filter)
  then show ?thesis by (simp only: sorted_map)
qed

lemma percents_sorted:
  assumes "k = 0 \<or> int k \<le> n"
  shows "sorted ([5, 10] @ map (\<lambda>j. pct j n) (filter P [0..<k]) @ (if fin then [98] else []))"
    and "\<forall>p \<in> set ([5, 10] @ map (\<lambda>j. pct j n) (filter P [0..<k]) @ (if fin then [98] else [])).
           5 \<le> p \<and> p \<le> 98"
proof -
  let ?L = "map (\<lambda>j. pct j n) (filter P [0..<k])"
  have b: "\<forall>p \<in> set ?L. 10 \<le> p \<and> p \<le> 95"
    using loop_pct_bounds [OF assms] by blast
  have s: "sorted ?L" using assms by (rule loop_pct_sorted)
  define M where "M = ?L @ (if fin then [98] else [])"
  have sm: "sorted M"
    unfolding M_def using s b by (auto simp: sorted_append)
  have bm: "\<forall>p \<in> set M. 10 \<le> p \<and> p \<le> 98"
    unfolding M_def using b by auto
  have "sorted ([5, 10] @ M)" using sm bm by fastforce
  then show "sorted ([5, 10] @ ?L @ (if fin then [98] else []))"
    unfolding M_def .
  have "\<forall>p \<in> set ([5, 10] @ M). 5 \<le> p \<and> p \<le> 98" using bm by fastforce
  then show "\<forall>p \<in> set ([5, 10] @ ?L @ (if fin then [98] else [])). 5 \<le> p \<and> p \<le> 98"
    unfolding M_def .
qed

text \<open>
  Claim C7, as stated, fails: there is no call of the callback at 100. The example call
  succeeds, and the percentages it reports are 5, 10, 10, 67 and 98; the last call of a
  successful conversion is "Finalizing Video..." at 98. (The caller of
  \<open>renderAndConvert\<close> sets its own status to 100 after the call has returned.)
\<close>

theorem progress_terminal_call_counterexample:
  "fst (renderAndConvert examplePlatform exampleDocument exampleOptions) = Inr BlobUrl \<and>
   map snd (progressLog (snd (renderAndConvert examplePlatform exampleDocument exampleOptions)))
     = [5, 10, 10, 67, 98]"
  by code_simp

text \<open>
  Claim C7, amended. The percentages passed to the callback during one call are
  non-decreasing integers between 0 and 100, and 100 is never among them. The calls are
  the two initial ones at 5 and 10, then, for the frames \<open>i\<close> the loop has completed,
  one call at \<open>10 + Math.round((i / totalOutputFrames) * 85)\<close> exactly for every fifth
  index and for the final index \<open>totalOutputFrames - 1\<close>, then the call at 98 once the
  loop is through. The quotient and the product of the percentage are those of double
  arithmetic, and \<open>totalOutputFrames\<close> is the frame count the code computes. On success
  the loop has completed all \<open>totalOutputFrames\<close> frames and the terminal call is the one
  at 98.
\<close>

theorem progress_events:
  fixes env d opts
  defines "n \<equiv> totalOutputFrames (loadAnimation d) (fps opts)"
  defines "r \<equiv> fst (renderAndConvert env d opts)"
  defines "s' \<equiv> snd (renderAndConvert env d opts)"
  shows "sorted (map snd (progressLog s')) \<and>
    (\<forall>p \<in> set (map snd (progressLog s')). 0 \<le> p \<and> p \<le> 100) \<and>
    100 \<notin> set (map snd (progressLog s')) \<and>
    (\<exists>k. (k = 0 \<or> int k \<le> n) \<and>
       (progressLog s' = [] \<or>
        progressLog s' =
          [(Initializing (resolution opts) (fps opts), 5), (ProcessingFrames n, 10)] @
          map (\<lambda>i. (ProcessingFrame (i + 1) n, 10 + round (js_mul (js_div (of_nat i) (of_int n)) 85)))
            (filter (\<lambda>i. i mod 5 = 0 \<or> int i = n - 1) [0..<k]) \<or>
        progressLog s' =
          [(Initializing (resolution opts) (fps opts), 5), (ProcessingFrames n, 10)] @
          map (\<lambda>i. (ProcessingFrame (i + 1) n, 10 + round (js_mul (js_div (of_nat i) (of_int n)) 85)))
            (filter (\<lambda>i. i mod 5 = 0 \<or> int i = n - 1) [0..<k]) @
          [(Finalizing, 98)])) \<and>
    (r = Inr BlobUrl \<longrightarrow>
       progressLog s' =
          [(Initializing (resolution opts) (fps opts), 5), (ProcessingFrames n, 10)] @
          map (\<lambda>i. (ProcessingFrame (i + 1) n, 10 + round (js_mul (js_div (of_nat i) (of_int n)) 85)))
            (filter (\<lambda>i. i mod 5 = 0 \<or> int i = n - 1) [0..<nat n]) @
          [(Finalizing, 98)])"
proof -
  let ?pre = "[(Initializing (resolution opts) (fps opts), 5), (ProcessingFrames n, 10)]"
  let ?loop = "\<lambda>k. map (\<lambda>i. (ProcessingFrame (i + 1) n, 10 + round (js_mul (js_div (of_nat i) (of_int n)) 85)))
            (filter (\<lambda>i. i mod 5 = 0 \<or> int i = n - 1) [0..<k])"
  from rac_logs [where env = env and d = d and opts = opts]
  obtain k fin where k: "k = 0 \<or> int k \<le> n" "r = Inr BlobUrl \<longrightarrow> int k = n \<and> fin"
    and lg: "progressLog s' = [] \<or>
      progressLog s' = ?pre @
       map (\<lambda>j. (ProcessingFrame (j + 1) n, pct j n)) (filter (\<lambda>j. progressDue j n) [0..<k]) @
       (if fin then [(Finalizing, 98)] else [])"
    unfolding n_def r_def s'_def by blast
  have loop: "map (\<lambda>j. (ProcessingFrame (j + 1) n, pct j n)) (filter (\<lambda>j. progressDue j n) [0..<k])
    = ?loop k"
    by (simp add: pct_def progressDue_iff)
  have ne: "r = Inr BlobUrl \<longrightarrow> progressLog s' \<noteq> []"
  proof (cases env d opts rule: rac_cases)
    case (run w h s3)
    from tryBlock_run(2) [OF run(4) refl run(6)] run(7) show ?thesis
      by (auto simp: s'_def finallyBlock_fields)
  qed (simp_all add: r_def)
  show ?thesis
  proof (cases "progressLog s' = []")
    case True
    with ne k(1) show ?thesis by auto
  next
    case False
    with lg loop have eq: "progressLog s' = ?pre @ ?loop k @ (if fin then [(Finalizing, 98)] else [])"
      by simp
    have ps: "map snd (progressLog s') =
      [5, 10] @ map (\<lambda>j. pct j n) (filter (\<lambda>i. i mod 5 = 0 \<or> int i = n - 1) [0..<k]) @
      (if fin then [98] else [])"
      unfolding eq by (simp add: comp_def pct_def)
    have srt: "sorted (map snd (progressLog s'))"
      unfolding ps using k(1) by (rule percents_sorted(1))
    have bnd: "\<forall>p \<in> set (map snd (progressLog s')). 5 \<le> p \<and> p \<le> 98"
      unfolding ps using k(1) by (rule percents_sorted(2))
    then have bnd': "\<forall>p \<in> set (map snd (progressLog s')). 0 \<le> p \<and> p \<le> 100" by fastforce
    from bnd have no100: "100 \<notin> set (map snd (progressLog s'))" by fastforce
    have shape: "\<exists>k. (k = 0 \<or> int k \<le> n) \<and>
       (progressLog s' = [] \<or> progressLog s' = ?pre @ ?loop k \<or>
        progressLog s' = ?pre @ ?loop k @ [(Finalizing, 98)])"
      using k(1) eq by (cases fin) auto
    have succ: "r = Inr BlobUrl \<longrightarrow> progressLog s' = ?pre @ ?loop (nat n) @ [(Finalizing, 98)]"
    proof
      assume "r = Inr BlobUrl"
      with k(2) have "k = nat n" "fin" by auto
      with eq show "progressLog s' = ?pre @ ?loop (nat n) @ [(Finalizing, 98)]" by simp
    qed
    from srt bnd' no100 shape succ show ?thesis by blast
  qed
qed

theorem progress_events_witness:
  "fst (renderAndConvert examplePlatform exampleDocument exampleOptions) = Inr BlobUrl \<and>
   progressLog (snd (renderAndConvert examplePlatform exampleDocument exampleOptions)) =
     [(Initializing FHD 30, 5), (ProcessingFrames 3, 10), (ProcessingFrame 1 3, 10),
      (ProcessingFrame 3 3, 67), (Finalizing, 98)] \<and>
   sorted (map snd (progressLog (snd (renderAndConvert examplePlatform exampleDocument exampleOptions))))"
proof -
  have a: "fst (renderAndConvert examplePlatform exampleDocument exampleOptions) = Inr BlobUrl"
    by (rule example_result)
  have n: "totalOutputFrames (loadAnimation exampleDocument) (fps exampleOptions) = 3"
    by (rule example_frames)
  have o: "resolution exampleOptions = FHD" "fps exampleOptions = 30"
    by (simp_all add: exampleOptions_def FPS_30_def)
  have ev: "map (\<lambda>i. (ProcessingFrame (i + 1) 3, 10 + round (js_mul (js_div (of_nat i) (of_int 3)) 85)))
            (filter (\<lambda>i. i mod 5 = 0 \<or> int i = 3 - 1) [0..<nat 3]) =
     [(ProcessingFrame 1 3, 10), (ProcessingFrame 3 3, 67)]"
    by code_simp
  note t = progress_events [where env = examplePlatform and d = exampleDocument and opts = exampleOptions,
      unfolded n]
  from t a have "progressLog (snd (renderAndConvert examplePlatform exampleDocument exampleOptions)) =
     [(Initializing (resolution exampleOptions) (fps exampleOptions), 5), (ProcessingFrames 3, 10)] @
     map (\<lambda>i. (ProcessingFrame (i + 1) 3, 10 + round (js_mul (js_div (of_nat i) (of_int 3)) 85)))
            (filter (\<lambda>i. i mod 5 = 0 \<or> int i = 3 - 1) [0..<nat 3]) @
     [(Finalizing, 98)]"
    by blast
  then have "progressLog (snd (renderAndConvert examplePlatform exampleDocument exampleOptions)) =
     [(Initializing FHD 30, 5), (ProcessingFrames 3, 10), (ProcessingFrame 1 3, 10),
      (ProcessingFrame 3 3, 67), (Finalizing, 98)]"
    unfolding ev o by simp
  with t a show ?thesis by blast
qed

end
